theory Spec2Isabelle
  imports Main "HOL-Library.AList"
begin

section \<open>ContentRecords plugin: template trees, bind index, record store\<close>

text \<open>
  A shallow embedding of the ContentRecords plugin (package main, the file that defines
  \<open>ContentRecordsPlugin\<close>). Go values of type \<open>interface{}\<close> become the datatype
  \<open>node\<close>; a Go map becomes an association list (its entries in one of the orders in
  which Go may iterate them, looked up with \<open>map_of\<close>, written with \<open>AList.update\<close>);
  in-place mutation becomes a returned value; an \<open>error\<close> result becomes a value of
  the datatype \<open>err\<close>. Strings are byte lists, as in Go.
\<close>

subsection \<open>The string functions of the Go library that the plugin calls\<close>

text \<open>
  \<open>strings.TrimSpace\<close> removes the Unicode white space runes from both ends. On the
  UTF-8 bytes of a string these are exactly the byte sequences below: the six ASCII
  spaces, U+0085, U+00A0, U+1680, U+2000 to U+200A, U+2028, U+2029, U+202F, U+205F and
  U+3000.
\<close>

definition space_runes :: "string list" where
  "space_runes =
    [[CHR 0x09], [CHR 0x0A], [CHR 0x0B], [CHR 0x0C], [CHR 0x0D], [CHR 0x20],
     [CHR 0xC2, CHR 0x85], [CHR 0xC2, CHR 0xA0], [CHR 0xE1, CHR 0x9A, CHR 0x80],
     [CHR 0xE2, CHR 0x80, CHR 0x80], [CHR 0xE2, CHR 0x80, CHR 0x81],
     [CHR 0xE2, CHR 0x80, CHR 0x82], [CHR 0xE2, CHR 0x80, CHR 0x83],
     [CHR 0xE2, CHR 0x80, CHR 0x84], [CHR 0xE2, CHR 0x80, CHR 0x85],
     [CHR 0xE2, CHR 0x80, CHR 0x86], [CHR 0xE2, CHR 0x80, CHR 0x87],
     [CHR 0xE2, CHR 0x80, CHR 0x88], [CHR 0xE2, CHR 0x80, CHR 0x89],
     [CHR 0xE2, CHR 0x80, CHR 0x8A], [CHR 0xE2, CHR 0x80, CHR 0xA8],
     [CHR 0xE2, CHR 0x80, CHR 0xA9], [CHR 0xE2, CHR 0x80, CHR 0xAF],
     [CHR 0xE2, CHR 0x81, CHR 0x9F], [CHR 0xE3, CHR 0x80, CHR 0x80]]"

text \<open>The number of bytes of the rune of \<open>runes\<close> that \<open>s\<close> starts with, 0 if none.\<close>

definition leadingRune :: "string list \<Rightarrow> string \<Rightarrow> nat" where
  "leadingRune runes s =
    (case List.find (\<lambda>w. w \<noteq> [] \<and> take (length w) s = w) runes of
       None \<Rightarrow> 0
     | Some w \<Rightarrow> length w)"

lemma leadingRune_nonempty: "0 < leadingRune runes s \<Longrightarrow> s \<noteq> []"
  by (auto simp: leadingRune_def find_Some_iff split: option.splits)

function trimLeftRunes :: "string list \<Rightarrow> string \<Rightarrow> string" where
  "trimLeftRunes runes s =
    (if leadingRune runes s = 0 then s
     else trimLeftRunes runes (drop (leadingRune runes s) s))"
  by pat_completeness auto
termination
proof (relation "measure (\<lambda>(runes, s). length s)")
  show "wf (measure (\<lambda>(runes, s). length s))" by simp
next
  fix runes :: "string list" and s :: string
  assume "leadingRune runes s \<noteq> 0"
  then have "0 < leadingRune runes s" by simp
  then have "s \<noteq> []" by (rule leadingRune_nonempty)
  with \<open>0 < leadingRune runes s\<close>
  show "((runes, drop (leadingRune runes s) s), (runes, s)) \<in> measure (\<lambda>(runes, s). length s)"
    by simp
qed

declare trimLeftRunes.simps [simp del]

definition strings_TrimSpace :: "string \<Rightarrow> string" where
  "strings_TrimSpace s =
    rev (trimLeftRunes (map rev space_runes) (rev (trimLeftRunes space_runes s)))"

text \<open>
  UTF-8, as package \<open>unicode/utf8\<close> reads and writes it. \<open>leadByte\<close> is the table
  \<open>first\<close> with \<open>acceptRanges\<close>: for the first byte of an encoding of two to four
  bytes, the size and the range of the second byte; size 0 for a byte that starts none.
  \<open>utf8_DecodeRune\<close> returns the rune and its width, \<open>U+FFFD\<close> with width 1 for
  a byte that starts no valid encoding. \<open>runes\<close> is the sequence that
  \<open>for _, c := range s\<close> visits.
\<close>

definition leadByte :: "nat \<Rightarrow> nat \<times> nat \<times> nat" where
  "leadByte b =
    (if 0xC2 \<le> b \<and> b \<le> 0xDF then (2, 0x80, 0xBF)
     else if b = 0xE0 then (3, 0xA0, 0xBF)
     else if b = 0xED then (3, 0x80, 0x9F)
     else if 0xE1 \<le> b \<and> b \<le> 0xEF then (3, 0x80, 0xBF)
     else if b = 0xF0 then (4, 0x90, 0xBF)
     else if 0xF1 \<le> b \<and> b \<le> 0xF3 then (4, 0x80, 0xBF)
     else if b = 0xF4 then (4, 0x80, 0x8F)
     else (0, 0, 0))"

definition continuation :: "nat \<Rightarrow> bool" where
  "continuation b = (0x80 \<le> b \<and> b \<le> 0xBF)"

definition utf8_DecodeRune :: "string \<Rightarrow> nat \<times> nat" where
  "utf8_DecodeRune s =
    (case map of_char s of
       [] \<Rightarrow> (0xFFFD, 0)
     | b0 # bs \<Rightarrow>
         if b0 < 0x80 then (b0, 1)
         else (case leadByte b0 of (sz, lo, hi) \<Rightarrow>
           if sz = 0 \<or> length bs + 1 < sz then (0xFFFD, 1)
           else if bs ! 0 < lo \<or> hi < bs ! 0 then (0xFFFD, 1)
           else if sz = 2 then (b0 mod 32 * 64 + bs ! 0 mod 64, 2)
           else if \<not> continuation (bs ! 1) then (0xFFFD, 1)
           else if sz = 3 then (b0 mod 16 * 4096 + bs ! 0 mod 64 * 64 + bs ! 1 mod 64, 3)
           else if \<not> continuation (bs ! 2) then (0xFFFD, 1)
           else (b0 mod 8 * 262144 + bs ! 0 mod 64 * 4096 + bs ! 1 mod 64 * 64
                 + bs ! 2 mod 64, 4)))"

fun runes :: "string \<Rightarrow> nat list" where
  "runes [] = []"
| "runes (c # cs) =
    fst (utf8_DecodeRune (c # cs)) # runes (drop (snd (utf8_DecodeRune (c # cs)) - 1) cs)"

text \<open>\<open>utf8.AppendRune\<close>: a surrogate or a value above \<open>U+10FFFF\<close> is written as
  \<open>U+FFFD\<close>.\<close>

definition utf8_AppendRune :: "nat \<Rightarrow> string" where
  "utf8_AppendRune r =
    (if r \<le> 0x7F then [char_of r]
     else if r \<le> 0x7FF then [char_of (0xC0 + r div 64), char_of (0x80 + r mod 64)]
     else if 0x10FFFF < r \<or> (0xD800 \<le> r \<and> r \<le> 0xDFFF)
       then [CHR 0xEF, CHR 0xBF, CHR 0xBD]
     else if r \<le> 0xFFFF
       then [char_of (0xE0 + r div 4096), char_of (0x80 + r div 64 mod 64),
             char_of (0x80 + r mod 64)]
     else [char_of (0xF0 + r div 262144), char_of (0x80 + r div 4096 mod 64),
           char_of (0x80 + r div 64 mod 64), char_of (0x80 + r mod 64)])"

text \<open>
  \<open>strings.ToLower\<close>. On a string of ASCII bytes it lowers the capitals; on any other
  string it is \<open>strings.Map(unicode.ToLower, s)\<close>, which writes the lower case of every
  rune of the string, a byte that starts no valid encoding being read as \<open>U+FFFD\<close>. Both
  are the definition below. \<open>unicode.ToLower\<close> lowers an ASCII rune itself and looks
  every other rune up in the table \<open>unicode.CaseRanges\<close> of the Go release the plugin
  is built with. That table is not part of the plugin: it is the parameter \<open>tbl\<close>, the
  lower case of each rune above ASCII, of every function that calls \<open>strings.ToLower\<close>.
\<close>

type_synonym caseTable = "nat \<Rightarrow> nat"

definition unicode_ToLower :: "caseTable \<Rightarrow> nat \<Rightarrow> nat" where
  "unicode_ToLower tbl r =
    (if r \<le> 0x7F then (if 65 \<le> r \<and> r \<le> 90 then r + 32 else r) else tbl r)"

definition strings_ToLower :: "caseTable \<Rightarrow> string \<Rightarrow> string" where
  "strings_ToLower tbl s =
    concat (map (\<lambda>r. utf8_AppendRune (unicode_ToLower tbl r)) (runes s))"

definition lowerChar :: "char \<Rightarrow> char" where
  "lowerChar c =
    (let n = (of_char c :: nat) in if 65 \<le> n \<and> n \<le> 90 then char_of (n + 32) else c)"

text \<open>
  \<open>strings.EqualFold\<close> under simple case folding. The plugin calls it with the constant
  \<open><PLUGIN>\<close>, whose letters fold with their ASCII counterparts only, so comparing the
  ASCII lower-casings is exact there.
\<close>

definition strings_EqualFold :: "string \<Rightarrow> string \<Rightarrow> bool" where
  "strings_EqualFold s t = (map lowerChar s = map lowerChar t)"

definition strings_HasPrefix :: "string \<Rightarrow> string \<Rightarrow> bool" where
  "strings_HasPrefix s p = (take (length p) s = p)"

fun strings_Contains :: "string \<Rightarrow> string \<Rightarrow> bool" where
  "strings_Contains [] sub = (sub = [])"
| "strings_Contains (c # cs) sub =
    (take (length sub) (c # cs) = sub \<or> strings_Contains cs sub)"

text \<open>\<open>strings.Split(s, sep)\<close> for a one-byte separator; it returns at least one part.\<close>

fun strings_Split :: "string \<Rightarrow> char \<Rightarrow> string list" where
  "strings_Split [] sep = [[]]"
| "strings_Split (c # cs) sep =
    (if c = sep then [] # strings_Split cs sep
     else (case strings_Split cs sep of
             [] \<Rightarrow> [[c]]
           | p # ps \<Rightarrow> (c # p) # ps))"

text \<open>
  \<open>strconv.ParseInt(s, 10, 64)\<close>: an optional sign, then decimal digits only; a value
  outside the 64-bit range is an error. \<open>strconv.Atoi\<close> is the same function on a
  64-bit platform.
\<close>

definition isDigit :: "char \<Rightarrow> bool" where
  "isDigit c = (48 \<le> (of_char c :: nat) \<and> (of_char c :: nat) \<le> 57)"

definition digitsValue :: "string \<Rightarrow> int" where
  "digitsValue ds = fold (\<lambda>c acc. 10 * acc + (int (of_char c) - 48)) ds 0"

definition strconv_ParseInt :: "string \<Rightarrow> int option" where
  "strconv_ParseInt s =
    (let neg = (take 1 s = ''-'');
         ds = (if take 1 s = ''+'' \<or> take 1 s = ''-'' then drop 1 s else s)
     in if ds = [] \<or> \<not> list_all isDigit ds then None
        else let v = (if neg then - digitsValue ds else digitsValue ds)
             in if v < - (2 ^ 63) \<or> 2 ^ 63 - 1 < v then None else Some v)"

definition strconv_Atoi :: "string \<Rightarrow> int option" where
  "strconv_Atoi s = strconv_ParseInt s"

text \<open>\<open>strconv.FormatInt(i, 10)\<close>.\<close>

fun natDigits :: "nat \<Rightarrow> string" where
  "natDigits n =
    (if n < 10 then [char_of (48 + n)] else natDigits (n div 10) @ [char_of (48 + n mod 10)])"

declare natDigits.simps [simp del]

definition strconv_FormatInt :: "int \<Rightarrow> string" where
  "strconv_FormatInt i = (if i < 0 then CHR ''-'' # natDigits (nat (- i)) else natDigits (nat i))"

subsection \<open>Template trees\<close>

text \<open>
  The dynamic types a decoded template holds. A \<open>float64\<close> is its mantissa and binary
  exponent, or an infinity or NaN; the plugin only asks whether it differs from zero. A
  key of a \<open>map[interface{}]interface{}\<close> is a string, or any other value, kept as the
  text \<open>fmt.Sprintf("%v", k)\<close> prints for it, which is all the plugin does with such a key.
  \<open>Other\<close> stands for a value of any further dynamic type.
\<close>

datatype float64 = Finite int int | Inf bool | NaN

datatype key = KStr string | KOther string

datatype node =
    GoNil
  | Str string
  | Bool bool
  | GoInt int
  | GoInt64 int
  | Float64 float64
  | Other string
  | Seq "node list"
  | Map "(string \<times> node) list"
  | IMap "(key \<times> node) list"

type_synonym smap = "(string \<times> node) list"
type_synonym imap = "(key \<times> node) list"

text \<open>\<open>getAtPath\<close>: the loop over the parts of the path, then the function itself.\<close>

fun getAtPath_loop :: "node \<Rightarrow> string list \<Rightarrow> node option" where
  "getAtPath_loop current [] = Some current"
| "getAtPath_loop current (p # rest) =
    (let part = strings_TrimSpace p in
     if part = [] then getAtPath_loop current rest
     else (case current of
         Map node \<Rightarrow>
           (case map_of node part of
              None \<Rightarrow> None
            | Some next \<Rightarrow> getAtPath_loop next rest)
       | IMap node \<Rightarrow>
           (case map_of node (KStr part) of
              None \<Rightarrow> None
            | Some next \<Rightarrow> getAtPath_loop next rest)
       | Seq node \<Rightarrow>
           (case strconv_Atoi part of
              None \<Rightarrow> None
            | Some idx \<Rightarrow>
                if idx < 0 \<or> int (length node) \<le> idx then None
                else getAtPath_loop (node ! nat idx) rest)
       | _ \<Rightarrow> None))"

definition getAtPath :: "smap \<Rightarrow> string \<Rightarrow> node option" where
  "getAtPath root path = getAtPath_loop (Map root) (strings_Split path CHR ''.'')"

text \<open>
  \<open>setAtPath\<close> writes into the map or slice it has reached. The loop returns the node
  it was given with that write done, or \<open>None\<close> where the Go function returns false
  (it has then written nothing). \<open>isLast\<close> compares the index of the part with the
  number of parts, empty parts included. The maps written to are never nil: the plugin
  calls \<open>setAtPath\<close> on trees that \<open>deepCopy\<close> has made.
\<close>

fun setAtPath_loop :: "node \<Rightarrow> string list \<Rightarrow> node \<Rightarrow> node option" where
  "setAtPath_loop current [] v = None"
| "setAtPath_loop current (p # rest) v =
    (let part = strings_TrimSpace p; isLast = (rest = []) in
     if part = [] then setAtPath_loop current rest v
     else (case current of
         Map node \<Rightarrow>
           if isLast then Some (Map (AList.update part v node))
           else (case map_of node part of
              None \<Rightarrow> None
            | Some next \<Rightarrow>
                (case setAtPath_loop next rest v of
                   None \<Rightarrow> None
                 | Some next' \<Rightarrow> Some (Map (AList.update part next' node))))
       | IMap node \<Rightarrow>
           if isLast then Some (IMap (AList.update (KStr part) v node))
           else (case map_of node (KStr part) of
              None \<Rightarrow> None
            | Some next \<Rightarrow>
                (case setAtPath_loop next rest v of
                   None \<Rightarrow> None
                 | Some next' \<Rightarrow> Some (IMap (AList.update (KStr part) next' node))))
       | Seq node \<Rightarrow>
           (case strconv_Atoi part of
              None \<Rightarrow> None
            | Some idx \<Rightarrow>
                if idx < 0 \<or> int (length node) \<le> idx then None
                else if isLast then Some (Seq (node[nat idx := v]))
                else (case setAtPath_loop (node ! nat idx) rest v of
                   None \<Rightarrow> None
                 | Some next' \<Rightarrow> Some (Seq (node[nat idx := next']))))
       | _ \<Rightarrow> None))"

text \<open>The root is a \<open>map[string]interface{}\<close>; the result pairs the flag with the root
  after the call.\<close>

definition setAtPath :: "smap \<Rightarrow> string \<Rightarrow> node \<Rightarrow> bool \<times> smap" where
  "setAtPath root path v =
    (case setAtPath_loop (Map root) (strings_Split path CHR ''.'') v of
       Some (Map root') \<Rightarrow> (True, root')
     | _ \<Rightarrow> (False, root))"

subsection \<open>Boundary detection\<close>

definition parseBoolFlag :: "caseTable \<Rightarrow> string \<Rightarrow> bool" where
  "parseBoolFlag tbl v =
    (strings_ToLower tbl (strings_TrimSpace v) \<in> set [''1'', ''true'', ''yes'', ''on'', ''y''])"

fun parseBoolish :: "caseTable \<Rightarrow> node \<Rightarrow> bool" where
  "parseBoolish tbl (Bool v) = v"
| "parseBoolish tbl (Str v) = parseBoolFlag tbl v"
| "parseBoolish tbl (GoInt v) = (v \<noteq> 0)"
| "parseBoolish tbl (GoInt64 v) = (v \<noteq> 0)"
| "parseBoolish tbl (Float64 (Finite m e)) = (m \<noteq> 0)"
| "parseBoolish tbl (Float64 _) = True"
| "parseBoolish tbl _ = False"

fun keyString :: "key \<Rightarrow> string" where
  "keyString (KStr s) = s"
| "keyString (KOther printed) = printed"

text \<open>
  \<open>normalizeInterfaceMap\<close> and \<open>normalizeSlice\<close>: each loop applies the same type switch
  to the value it visits. \<open>result[key] = ...\<close> overwrites an entry written earlier under
  the same key.
\<close>

fun normalizeInterfaceMap_loop :: "imap \<Rightarrow> smap \<Rightarrow> smap"
  and normalizeSlice :: "node list \<Rightarrow> node list" where
  "normalizeInterfaceMap_loop [] result = result"
| "normalizeInterfaceMap_loop ((k, v) # rest) result =
    normalizeInterfaceMap_loop rest
      (AList.update (keyString k)
        (case v of
           Map child \<Rightarrow> Map child
         | IMap child \<Rightarrow> Map (normalizeInterfaceMap_loop child [])
         | Seq child \<Rightarrow> Seq (normalizeSlice child)
         | _ \<Rightarrow> v)
        result)"
| "normalizeSlice [] = []"
| "normalizeSlice (v # vs) =
    (case v of
       Map child \<Rightarrow> Map child
     | IMap child \<Rightarrow> Map (normalizeInterfaceMap_loop child [])
     | Seq child \<Rightarrow> Seq (normalizeSlice child)
     | _ \<Rightarrow> v) # normalizeSlice vs"

definition normalizeInterfaceMap :: "imap \<Rightarrow> smap" where
  "normalizeInterfaceMap v = normalizeInterfaceMap_loop v []"

text \<open>\<open>m[k]\<close> on a missing key is nil; \<open>v.(string)\<close> on another type is the empty string.\<close>

definition mapIndex :: "smap \<Rightarrow> string \<Rightarrow> node" where
  "mapIndex m k = (case map_of m k of None \<Rightarrow> GoNil | Some v \<Rightarrow> v)"

definition stringOf :: "node \<Rightarrow> string" where
  "stringOf v = (case v of Str s \<Rightarrow> s | _ \<Rightarrow> [])"

definition isBoundaryPlugin :: "caseTable \<Rightarrow> smap \<Rightarrow> bool" where
  "isBoundaryPlugin tbl node =
    (let nodeType = stringOf (mapIndex node ''@type'') in
     if \<not> strings_EqualFold (strings_TrimSpace nodeType) ''<PLUGIN>'' then False
     else let pluginName = stringOf (mapIndex node ''plugin'') in
       if strings_Contains (strings_ToLower tbl pluginName) ''contentrecords'' then True
       else (case map_of node ''data'' of
           None \<Rightarrow> False
         | Some (Map data) \<Rightarrow>
             parseBoolish tbl (mapIndex data ''content_record_boundary'')
             \<or> parseBoolish tbl (mapIndex data ''boundary'')
         | Some (IMap data) \<Rightarrow>
             (let normalized = normalizeInterfaceMap data in
              parseBoolish tbl (mapIndex normalized ''content_record_boundary'')
              \<or> parseBoolish tbl (mapIndex normalized ''boundary''))
         | Some _ \<Rightarrow> False))"

text \<open>
  The recursive walks below call themselves on a normalized copy of a
  \<open>map[interface{}]interface{}\<close> child, which is not a subterm of the node. \<open>weight\<close>
  is the measure that decreases there: normalizing never adds weight, and a
  \<open>map[interface{}]interface{}\<close> weighs one more than the \<open>map[string]interface{}\<close> made
  from it.
\<close>

fun weight :: "node \<Rightarrow> nat" where
  "weight (Seq xs) = 1 + (\<Sum>x\<leftarrow>xs. 1 + weight x)"
| "weight (Map kvs) = 2 + (\<Sum>kv\<leftarrow>kvs. 1 + weight (snd kv))"
| "weight (IMap kvs) = 3 + (\<Sum>kv\<leftarrow>kvs. 1 + weight (snd kv))"
| "weight _ = 0"

lemma weight_update:
  "weight (Map (AList.update k v m)) \<le> 1 + weight v + weight (Map m)"
  by (induction m) auto

lemma weight_normalize_aux:
  "weight (Map (normalizeInterfaceMap_loop im acc)) + 3 \<le> weight (IMap im) + weight (Map acc)"
  "weight (Seq (normalizeSlice xs)) \<le> weight (Seq xs)"
proof (induction im acc and xs rule: normalizeInterfaceMap_loop_normalizeSlice.induct)
  case (2 k v rest result)
  let ?v' = "(case v of Map child \<Rightarrow> Map child
         | IMap child \<Rightarrow> Map (normalizeInterfaceMap_loop child [])
         | Seq child \<Rightarrow> Seq (normalizeSlice child)
         | _ \<Rightarrow> v)"
  have v': "weight ?v' \<le> weight v"
    using "2.IH"(1,2)
    by (cases v)
       (auto simp del: weight.simps(1,2,3)
             simp add: weight.simps(3)[of "[]"] weight.simps(2)[of "[]"])
  have "weight (Map (normalizeInterfaceMap_loop rest (AList.update (keyString k) ?v' result))) + 3
      \<le> weight (IMap rest) + weight (Map (AList.update (keyString k) ?v' result))"
    using "2.IH"(3) by simp
  also have "\<dots> \<le> weight (IMap rest) + (1 + weight ?v' + weight (Map result))"
    using weight_update[of "keyString k" ?v' result] by simp
  also have "\<dots> \<le> weight (IMap ((k, v) # rest)) + weight (Map result)"
    using v' by simp
  finally show ?case by simp
next
  case (4 v vs)
  let ?v' = "(case v of Map child \<Rightarrow> Map child
         | IMap child \<Rightarrow> Map (normalizeInterfaceMap_loop child [])
         | Seq child \<Rightarrow> Seq (normalizeSlice child)
         | _ \<Rightarrow> v)"
  have v': "weight ?v' \<le> weight v"
    using "4.IH"(1,2)
    by (cases v)
       (auto simp del: weight.simps(1,2,3)
             simp add: weight.simps(3)[of "[]"] weight.simps(2)[of "[]"])
  then show ?case using "4.IH"(3) by simp
qed simp_all

lemma wsum_normalize:
  "(\<Sum>kv\<leftarrow>normalizeInterfaceMap im. Suc (weight (snd kv)))
    \<le> (\<Sum>kv\<leftarrow>im. Suc (weight (snd kv)))"
  using weight_normalize_aux(1)[of im "[]"] by (simp add: normalizeInterfaceMap_def)

lemma wsum_normalize_less:
  "k * (\<Sum>kv\<leftarrow>im. Suc (weight (snd kv))) < c \<Longrightarrow>
   k * (\<Sum>kv\<leftarrow>normalizeInterfaceMap im. Suc (weight (snd kv))) < c"
  by (rule le_less_trans[OF mult_le_mono2[OF wsum_normalize]])

text \<open>
  \<open>hasBoundaryPlugin\<close>, with its loop over the entries of a map and its loop over the
  elements of a slice.
\<close>

function hasBoundaryPlugin :: "caseTable \<Rightarrow> node \<Rightarrow> bool"
  and hasBoundaryPlugin_entries :: "caseTable \<Rightarrow> smap \<Rightarrow> bool"
  and hasBoundaryPlugin_items :: "caseTable \<Rightarrow> node list \<Rightarrow> bool" where
  "hasBoundaryPlugin tbl (Map typed) =
    (if isBoundaryPlugin tbl typed then True else hasBoundaryPlugin_entries tbl typed)"
| "hasBoundaryPlugin tbl (IMap typed) = hasBoundaryPlugin tbl (Map (normalizeInterfaceMap typed))"
| "hasBoundaryPlugin tbl (Seq typed) = hasBoundaryPlugin_items tbl typed"
| "hasBoundaryPlugin tbl GoNil = False"
| "hasBoundaryPlugin tbl (Str v) = False"
| "hasBoundaryPlugin tbl (Bool v) = False"
| "hasBoundaryPlugin tbl (GoInt v) = False"
| "hasBoundaryPlugin tbl (GoInt64 v) = False"
| "hasBoundaryPlugin tbl (Float64 v) = False"
| "hasBoundaryPlugin tbl (Other v) = False"
| "hasBoundaryPlugin_entries tbl [] = False"
| "hasBoundaryPlugin_entries tbl ((key, child) # rest) =
    (if strings_HasPrefix key ''@'' then hasBoundaryPlugin_entries tbl rest
     else if hasBoundaryPlugin tbl child then True
     else hasBoundaryPlugin_entries tbl rest)"
| "hasBoundaryPlugin_items tbl [] = False"
| "hasBoundaryPlugin_items tbl (child # rest) =
    (if hasBoundaryPlugin tbl child then True else hasBoundaryPlugin_items tbl rest)"
  by pat_completeness auto
termination
  by (relation "measure (\<lambda>x. case x of
          Inl (tbl, n) \<Rightarrow> 2 * weight n + 1
        | Inr (Inl (tbl, kvs)) \<Rightarrow> 2 * weight (Map kvs)
        | Inr (Inr (tbl, xs)) \<Rightarrow> 2 * weight (Seq xs))")
     (auto intro!: wsum_normalize_less)

subsection \<open>The bind index\<close>

text \<open>
  A \<open>map[string]bindTarget\<close> is an association list from the field to the path of its
  target, a new field added at the end. \<open>bindDecl\<close> is the \<open>@bind\<close> a node itself
  carries, as the first block of \<open>collectBinds\<close> reads it: the trimmed field and path
  when both are non-empty strings of a \<open>map[string]interface{}\<close>.
\<close>

type_synonym binds = "(string \<times> string) list"

definition bindDecl :: "smap \<Rightarrow> (string \<times> string) option" where
  "bindDecl node =
    (case map_of node ''@bind'' of
       Some (Map bindMap) \<Rightarrow>
         (let field = strings_TrimSpace (stringOf (mapIndex bindMap ''field''));
              bindPath = strings_TrimSpace (stringOf (mapIndex bindMap ''path''))
          in if field \<noteq> [] \<and> bindPath \<noteq> [] then Some (field, bindPath) else None)
     | _ \<Rightarrow> None)"

definition joinPath :: "string \<Rightarrow> string \<Rightarrow> string" where
  "joinPath path part = (if path \<noteq> [] then path @ ''.'' @ part else part)"

function collectBinds :: "caseTable \<Rightarrow> smap \<Rightarrow> string \<Rightarrow> binds \<Rightarrow> binds"
  and collectBinds_range :: "caseTable \<Rightarrow> smap \<Rightarrow> string \<Rightarrow> binds \<Rightarrow> binds" where
  "collectBinds tbl node path binds =
    (let binds1 =
       (case bindDecl node of
          Some (field, bindPath) \<Rightarrow>
            if map_of binds field = None then binds @ [(field, joinPath path bindPath)]
            else binds
        | None \<Rightarrow> binds)
     in if isBoundaryPlugin tbl node then binds1 else collectBinds_range tbl node path binds1)"
| "collectBinds_range tbl [] path binds = binds"
| "collectBinds_range tbl ((key, v) # rest) path binds =
    (if strings_HasPrefix key ''@'' then collectBinds_range tbl rest path binds
     else (case v of
         Map child \<Rightarrow>
           collectBinds_range tbl rest path (collectBinds tbl child (joinPath path key) binds)
       | IMap childMap \<Rightarrow>
           collectBinds_range tbl rest path
             (collectBinds tbl (normalizeInterfaceMap childMap) (joinPath path key) binds)
       | _ \<Rightarrow> collectBinds_range tbl rest path binds))"
  by pat_completeness auto
termination
  by (relation "measure (\<lambda>x. case x of
          Inl (tbl, node, path, binds) \<Rightarrow> 2 * weight (Map node) + 1
        | Inr (tbl, kvs, path, binds) \<Rightarrow> 2 * weight (Map kvs))")
     (auto intro!: wsum_normalize_less)

declare collectBinds.simps [simp del]

subsection \<open>Configuration and the view/action resolver\<close>

text \<open>The fields of the \<open>Fields\<close> struct that the functions modelled here read.\<close>

record Fields =
  View :: string
  Action :: string
  Mode :: string
  RecordParam :: string
  UploadDir :: string
  Upload :: string

definition resolveViewAction :: "caseTable \<Rightarrow> Fields \<Rightarrow> string \<times> string" where
  "resolveViewAction tbl cfg =
    (let view = strings_ToLower tbl (strings_TrimSpace (View cfg));
         action = strings_ToLower tbl (strings_TrimSpace (Action cfg));
         mode = strings_ToLower tbl (strings_TrimSpace (Mode cfg));
         (view, action) =
           (if view = [] \<and> action = [] \<and> mode \<noteq> [] then
              (if mode = ''render'' then (''list'', ''render'')
               else if mode = ''cms'' then (''list'', ''edit'')
               else if mode = ''edit'' then (''single'', ''edit'')
               else (view, action))
            else (view, action));
         view = (if view = [] then ''list'' else view);
         action = (if action = [] then ''render'' else action)
     in (view, action))"

text \<open>The branch that the switch of \<open>Render\<close> takes on the resolved pair.\<close>

datatype render_case =
  RenderListEdit | RenderSingleEdit | RenderListRender | RenderSingleRender | UnknownViewAction

definition Render_switch :: "caseTable \<Rightarrow> Fields \<Rightarrow> render_case" where
  "Render_switch tbl cfg =
    (let (view, action) = resolveViewAction tbl cfg in
     if view = ''list'' \<and> action = ''edit'' then RenderListEdit
     else if view = ''single'' \<and> action = ''edit'' then RenderSingleEdit
     else if view = ''list'' \<and> action = ''render'' then RenderListRender
     else if view = ''single'' \<and> action = ''render'' then RenderSingleRender
     else UnknownViewAction)"

definition resolveRecordParam :: "Fields \<Rightarrow> string" where
  "resolveRecordParam cfg =
    (let param = strings_TrimSpace (RecordParam cfg) in
     if param = [] then ''id'' else param)"

definition resolveUploadDir :: "Fields \<Rightarrow> string" where
  "resolveUploadDir cfg =
    (if strings_TrimSpace (UploadDir cfg) \<noteq> [] then strings_TrimSpace (UploadDir cfg)
     else if strings_TrimSpace (Upload cfg) \<noteq> [] then strings_TrimSpace (Upload cfg)
     else [])"

definition parseRecordID :: "string \<Rightarrow> int" where
  "parseRecordID v =
    (let v = strings_TrimSpace v in
     if v = [] then 0
     else (case strconv_ParseInt v of None \<Rightarrow> 0 | Some n \<Rightarrow> n))"

subsection \<open>The record store\<close>

text \<open>
  The store is the content of the two tables of \<open>initSchema\<close> and the counter that
  SQLite keeps for an \<open>AUTOINCREMENT\<close> key. \<open>CURRENT_TIMESTAMP\<close> is the argument
  \<open>now\<close> of the operations that write it. A statement fails only for a reason the
  tables determine: a primary key that is already present, no row for \<open>QueryRow\<close>, no
  row id left, a write lock that is taken. Failures of the connection or of the disk
  are outside the model.

  Every function that writes begins a transaction and defers
  \<open>if err != nil { tx.Rollback() }\<close>, which reads the variable \<open>err\<close> that
  \<open>tx, err := db.Begin()\<close> declares. A path that returns an error without assigning that
  variable (it returns a new error value, or the \<open>err\<close> of an \<open>if err := ...\<close>) runs
  neither \<open>Commit\<close> nor \<open>Rollback\<close>: the transaction stays open, and once it has
  executed a write statement it keeps the write lock of the database. \<open>write_lock\<close> is
  that lock, held by a transaction that was left open. The tables of the store are the
  committed ones: what the statements of an open transaction wrote is not in them.
  While the lock is held the first write statement of every other transaction fails with
  \<open>database is locked\<close>; queries read the committed tables all the same.
\<close>

datatype err =
    RecordIdRequired
  | BindKeyRequired
  | RecordNotFound
  | ErrNoRows
  | ConstraintFailed
  | DatabaseFull
  | DatabaseLocked
  | DecodeFailed
  | FormInvalid
  | UploadFailed

record record_row =
  row_id :: int
  row_type :: string
  created_at :: nat
  updated_at :: nat

record field_row =
  record_id :: int
  bind_key :: string
  field_value :: string

record db =
  records :: "record_row list"
  record_fields :: "field_row list"
  sequence :: int
  write_lock :: bool

text \<open>The store after a call that leaves its transaction open: the committed tables, and
  the write lock taken.\<close>

definition leftOpen :: "db \<Rightarrow> db" where
  "leftOpen d = d\<lparr>write_lock := True\<rparr>"

text \<open>\<open>UPDATE records SET updated_at = CURRENT_TIMESTAMP WHERE ...\<close>, with the number of
  rows affected.\<close>

definition exec_touch_records :: "nat \<Rightarrow> (record_row \<Rightarrow> bool) \<Rightarrow> db \<Rightarrow> db \<times> nat" where
  "exec_touch_records now cond d =
    (d\<lparr>records := map (\<lambda>r. if cond r then r\<lparr>updated_at := now\<rparr> else r) (records d)\<rparr>,
     length (filter cond (records d)))"

text \<open>\<open>DELETE FROM records WHERE ...\<close>\<close>

definition exec_delete_records :: "(record_row \<Rightarrow> bool) \<Rightarrow> db \<Rightarrow> db" where
  "exec_delete_records cond d = d\<lparr>records := filter (\<lambda>r. \<not> cond r) (records d)\<rparr>"

text \<open>
  \<open>INSERT INTO records(type) VALUES(?)\<close> with \<open>LastInsertId\<close>: the new id is one more
  than the largest id the table holds or has ever issued, and the statement fails when
  that is the largest 64-bit integer.
\<close>

definition lastRowid :: "db \<Rightarrow> int" where
  "lastRowid d = fold max (map row_id (records d)) (sequence d)"

definition exec_insert_record :: "nat \<Rightarrow> string \<Rightarrow> db \<Rightarrow> err + db \<times> int" where
  "exec_insert_record now contentType d =
    (if 2 ^ 63 - 1 \<le> lastRowid d then Inl DatabaseFull
     else let recordID = lastRowid d + 1 in
       Inr (d\<lparr>records := records d @
                 [\<lparr>row_id = recordID, row_type = contentType,
                   created_at = now, updated_at = now\<rparr>],
               sequence := recordID\<rparr>,
            recordID))"

text \<open>\<open>DELETE FROM record_fields WHERE record_id = ?\<close>\<close>

definition exec_delete_fields :: "int \<Rightarrow> db \<Rightarrow> db" where
  "exec_delete_fields recordID d =
    d\<lparr>record_fields := filter (\<lambda>f. record_id f \<noteq> recordID) (record_fields d)\<rparr>"

text \<open>\<open>INSERT INTO record_fields(record_id, bind_key, value) VALUES(?, ?, ?)\<close>, refused
  when the primary key \<open>(record_id, bind_key)\<close> is present.\<close>

definition exec_insert_field :: "int \<Rightarrow> string \<Rightarrow> string \<Rightarrow> db \<Rightarrow> err + db" where
  "exec_insert_field recordID k v d =
    (if \<exists>f \<in> set (record_fields d). record_id f = recordID \<and> bind_key f = k
     then Inl ConstraintFailed
     else Inr (d\<lparr>record_fields := record_fields d @
                 [\<lparr>record_id = recordID, bind_key = k, field_value = v\<rparr>]\<rparr>))"

text \<open>\<open>UPDATE record_fields SET value = ? WHERE record_id = ? AND bind_key = ?\<close>, with the
  number of rows affected.\<close>

definition exec_update_field :: "string \<Rightarrow> int \<Rightarrow> string \<Rightarrow> db \<Rightarrow> db \<times> nat" where
  "exec_update_field v recordID k d =
    (d\<lparr>record_fields :=
         map (\<lambda>f. if record_id f = recordID \<and> bind_key f = k then f\<lparr>field_value := v\<rparr> else f)
           (record_fields d)\<rparr>,
     length (filter (\<lambda>f. record_id f = recordID \<and> bind_key f = k) (record_fields d)))"

text \<open>\<open>upsertFields\<close>: one insert for each entry of \<open>values\<close>, stopping at the first error.\<close>

fun upsertFields :: "db \<Rightarrow> int \<Rightarrow> (string \<times> string) list \<Rightarrow> err + db" where
  "upsertFields tx recordID [] = Inr tx"
| "upsertFields tx recordID ((k, v) # rest) =
    (case exec_insert_field recordID k v tx of
       Inl e \<Rightarrow> Inl e
     | Inr tx' \<Rightarrow> upsertFields tx' recordID rest)"

text \<open>
  \<open>createRecord\<close>. \<open>res, err := tx.Exec(...)\<close> assigns the \<open>err\<close> of the function, so
  a failed insert into \<open>records\<close> is rolled back. \<open>if err := upsertFields(...)\<close>
  declares another \<open>err\<close>: when an insert of a field fails the transaction is left open.
\<close>

definition createRecord ::
    "nat \<Rightarrow> db \<Rightarrow> string \<Rightarrow> (string \<times> string) list \<Rightarrow> db \<times> (err + int)" where
  "createRecord now d contentType vals =
    (if write_lock d then (d, Inl DatabaseLocked)
     else (case exec_insert_record now contentType d of
         Inl e \<Rightarrow> (d, Inl e)
       | Inr (tx, recordID) \<Rightarrow>
           (case upsertFields tx recordID vals of
              Inl e \<Rightarrow> (leftOpen d, Inl e)
            | Inr tx' \<Rightarrow> (tx', Inr recordID))))"

text \<open>
  \<open>updateRecord\<close> and \<open>deleteRecord\<close> drop the result of their statement on
  \<open>records\<close>. Each of their statements is run as \<open>if _, err := tx.Exec(...)\<close>, so no
  error of theirs is rolled back; a transaction whose first statement failed on the lock
  holds no lock itself.
\<close>

definition updateRecord ::
    "nat \<Rightarrow> db \<Rightarrow> int \<Rightarrow> string \<Rightarrow> (string \<times> string) list \<Rightarrow> db \<times> err option" where
  "updateRecord now d recordID contentType vals =
    (if write_lock d then (d, Some DatabaseLocked)
     else let tx =
       (if contentType \<noteq> []
        then fst (exec_touch_records now
                    (\<lambda>r. row_id r = recordID \<and> row_type r = contentType) d)
        else fst (exec_touch_records now (\<lambda>r. row_id r = recordID) d));
         tx = exec_delete_fields recordID tx
     in case upsertFields tx recordID vals of
          Inl e \<Rightarrow> (leftOpen d, Some e)
        | Inr tx' \<Rightarrow> (tx', None))"

text \<open>
  \<open>updateRecordField\<close> checks its arguments before it begins the transaction. Its two
  updates assign the \<open>err\<close> of the function (\<open>res, err = tx.Exec(...)\<close>), so an error of
  theirs is rolled back. \<open>return fmt.Errorf("record not found")\<close> assigns nothing, and the
  insert is run as \<open>if _, err := tx.Exec(...)\<close>: on these two paths the transaction is left
  open.
\<close>

definition updateRecordField ::
    "nat \<Rightarrow> db \<Rightarrow> int \<Rightarrow> string \<Rightarrow> string \<Rightarrow> string \<Rightarrow> db \<times> err option" where
  "updateRecordField now d recordID contentType bindKey v =
    (if recordID = 0 then (d, Some RecordIdRequired)
     else if strings_TrimSpace bindKey = [] then (d, Some BindKeyRequired)
     else if write_lock d then (d, Some DatabaseLocked)
     else let (tx, rows) =
            (if contentType \<noteq> []
             then exec_touch_records now
                    (\<lambda>r. row_id r = recordID \<and> row_type r = contentType) d
             else exec_touch_records now (\<lambda>r. row_id r = recordID) d)
       in if rows = 0 then (leftOpen d, Some RecordNotFound)
          else let (tx, rows) = exec_update_field v recordID bindKey tx
            in if rows = 0
               then (case exec_insert_field recordID bindKey v tx of
                       Inl e \<Rightarrow> (leftOpen d, Some e)
                     | Inr tx' \<Rightarrow> (tx', None))
               else (tx, None))"

definition deleteRecord :: "db \<Rightarrow> int \<Rightarrow> string \<Rightarrow> db \<times> err option" where
  "deleteRecord d recordID contentType =
    (if write_lock d then (d, Some DatabaseLocked)
     else let tx = exec_delete_fields recordID d;
         tx = (if contentType \<noteq> []
               then exec_delete_records
                      (\<lambda>r. row_id r = recordID \<and> row_type r = contentType) tx
               else exec_delete_records (\<lambda>r. row_id r = recordID) tx)
     in (tx, None))"

definition countRecords :: "db \<Rightarrow> string \<Rightarrow> nat" where
  "countRecords d contentType =
    (if strings_TrimSpace contentType = [] then length (records d)
     else length (filter (\<lambda>r. row_type r = contentType) (records d)))"

text \<open>
  The struct \<open>record\<close> of the plugin, and \<open>fetchRecordFields\<close>: the loop over the rows
  of the query keeps the first value it meets for a key.
\<close>

record content_record =
  ID :: int
  FieldValues :: "string \<rightharpoonup> string"

fun fetchRecordFields_scan :: "field_row list \<Rightarrow> (string \<rightharpoonup> string) \<Rightarrow> (string \<rightharpoonup> string)" where
  "fetchRecordFields_scan [] found = found"
| "fetchRecordFields_scan (row # rows) found =
    (if found (bind_key row) \<noteq> None then fetchRecordFields_scan rows found
     else fetchRecordFields_scan rows (found(bind_key row \<mapsto> field_value row)))"

definition fetchRecordFields :: "db \<Rightarrow> int \<Rightarrow> (string \<rightharpoonup> string)" where
  "fetchRecordFields d recordID =
    fetchRecordFields_scan (filter (\<lambda>f. record_id f = recordID) (record_fields d)) Map.empty"

definition fetchRecordByID :: "db \<Rightarrow> int \<Rightarrow> string \<Rightarrow> err + content_record" where
  "fetchRecordByID d recordID contentType =
    (if recordID = 0 then Inl RecordIdRequired
     else (case (if contentType \<noteq> []
                 then filter (\<lambda>r. row_id r = recordID \<and> row_type r = contentType) (records d)
                 else filter (\<lambda>r. row_id r = recordID) (records d)) of
         [] \<Rightarrow> Inl ErrNoRows
       | r # _ \<Rightarrow> Inr \<lparr>ID = row_id r, FieldValues = fetchRecordFields d (row_id r)\<rparr>))"

text \<open>
  Seeding. \<open>fmt.Sprintf("%v", v)\<close> is the argument \<open>sprint\<close>. The loop of
  \<open>defaultValuesFromTemplate\<close> assigns \<open>values[bindKey]\<close> once for each bind.
\<close>

definition defaultValuesFromTemplate ::
    "(node \<Rightarrow> string) \<Rightarrow> smap \<Rightarrow> binds \<Rightarrow> (string \<times> string) list" where
  "defaultValuesFromTemplate sprint template binds =
    fold (\<lambda>(bindKey, target) vals.
            AList.update bindKey
              (case getAtPath template target of None \<Rightarrow> [] | Some v \<Rightarrow> sprint v) vals)
      binds []"

definition createRecordFromTemplate ::
    "(node \<Rightarrow> string) \<Rightarrow> nat \<Rightarrow> db \<Rightarrow> string \<Rightarrow> smap \<Rightarrow> binds \<Rightarrow> db \<times> (err + int)" where
  "createRecordFromTemplate sprint now d contentType template binds =
    createRecord now d contentType (defaultValuesFromTemplate sprint template binds)"

definition ensureSeed ::
    "(node \<Rightarrow> string) \<Rightarrow> nat \<Rightarrow> db \<Rightarrow> smap \<Rightarrow> binds \<Rightarrow> string \<Rightarrow> db \<times> err option" where
  "ensureSeed sprint now d template binds contentType =
    (let count = countRecords d contentType in
     if count > 0 then (d, None)
     else (case createRecordFromTemplate sprint now d contentType template binds of
             (d', Inl e) \<Rightarrow> (d', Some e)
           | (d', Inr recordID) \<Rightarrow> (d', None)))"

subsection \<open>The inline-edit handler\<close>

text \<open>
  What the handler reads of its context. \<open>JSONBody\<close> is what \<open>decodeInlineJSON\<close>
  returns for the request: the error of the decoder, or the decoded object, each key
  read through \<open>getStringFromAny\<close> (the empty string for a key that is absent).
  \<open>FormError\<close> is the error of the call of \<open>ParseMultipartForm\<close> or \<open>ParseForm\<close>
  that \<open>parseRequestForm\<close> makes on the request: \<open>None\<close> when the call succeeds, and
  when no call is made because the multipart form is parsed already. \<open>FileFields\<close>
  tells whether the multipart form of the request holds a file under a field name (it
  holds none when it was not parsed), and \<open>SaveUpload\<close> is \<open>saveUploadFile\<close> on the
  request: the path written, the empty path when the field holds no file, or an error.
  \<open>Input\<close> is \<open>GetInputFromContext\<close> as the handler calls it, after
  \<open>parseRequestForm\<close> for a form body and on the request as it came for a JSON body,
  in a context whose \<open>RequestBody\<close> reader is unset or read to its end, so that the
  result depends on the key only.
\<close>

record http_request =
  Method :: string
  ContentTypeHeader :: string
  JSONBody :: "err + (string \<Rightarrow> string)"
  FormError :: "err option"
  FileFields :: "string \<Rightarrow> bool"
  SaveUpload :: "string \<Rightarrow> string \<Rightarrow> err + string"

record request_context =
  Request :: "http_request option"
  Input :: "string \<Rightarrow> string"

text \<open>
  The argument \<open>errors *[]error\<close>: \<open>None\<close> is the nil pointer, and an entry is the
  text that \<open>fmt.Errorf\<close> puts after the name of the plugin, with the error it wraps.
  \<open>appendError\<close> is \<open>if errors != nil { *errors = append(*errors, ...) }\<close>.
\<close>

type_synonym errors = "(string \<times> err) list option"

definition appendError :: "errors \<Rightarrow> string \<Rightarrow> err \<Rightarrow> errors" where
  "appendError errors msg e = map_option (\<lambda>es. es @ [(msg, e)]) errors"

definition parseRequestForm :: "http_request \<Rightarrow> errors \<Rightarrow> errors" where
  "parseRequestForm req errors =
    (if strings_HasPrefix (ContentTypeHeader req) ''multipart/form-data'' then
       (case FormError req of
          Some e \<Rightarrow> appendError errors ''parse multipart form failed'' e
        | None \<Rightarrow> errors)
     else
       (case FormError req of
          Some e \<Rightarrow> appendError errors ''parse form failed'' e
        | None \<Rightarrow> errors))"

record inlineUpdatePayload =
  Inline :: string
  RecordID :: string
  Bind :: string
  Value :: string

fun firstNonEmpty :: "string list \<Rightarrow> string" where
  "firstNonEmpty [] = []"
| "firstNonEmpty (v # rest) =
    (let v = strings_TrimSpace v in if v \<noteq> [] then v else firstNonEmpty rest)"

text \<open>\<open>parseInlinePayload\<close> returns the payload or the error of the decoder, with
  \<open>errors\<close> as \<open>parseRequestForm\<close> leaves it.\<close>

definition parseInlinePayload ::
    "http_request \<Rightarrow> request_context \<Rightarrow> Fields \<Rightarrow> errors
      \<Rightarrow> (err + inlineUpdatePayload) \<times> errors" where
  "parseInlinePayload req ctx cfg errors =
    (if strings_HasPrefix (ContentTypeHeader req) ''application/json'' then
       (case JSONBody req of
          Inl e \<Rightarrow> (Inl e, errors)
        | Inr payload \<Rightarrow>
            (Inr \<lparr>Inline = firstNonEmpty [payload ''cr_inline'', payload ''inline''],
                  RecordID = firstNonEmpty [payload ''record_id'', payload ''id''],
                  Bind = firstNonEmpty [payload ''bind'', payload ''field''],
                  Value = payload ''value''\<rparr>,
             errors))
     else
       (Inr \<lparr>Inline = firstNonEmpty [Input ctx ''cr_inline'', Input ctx ''inline''],
             RecordID = firstNonEmpty [Input ctx ''record_id'', Input ctx (resolveRecordParam cfg)],
             Bind = firstNonEmpty [Input ctx ''bind'', Input ctx ''field''],
             Value = Input ctx ''value''\<rparr>,
        parseRequestForm req errors))"

definition resolveRecordID :: "request_context \<Rightarrow> string \<Rightarrow> int" where
  "resolveRecordID ctx param =
    (let k = strings_TrimSpace param; k = (if k = [] then ''id'' else k)
     in parseRecordID (Input ctx k))"

definition hasFileUpload :: "http_request \<Rightarrow> string list \<Rightarrow> bool" where
  "hasFileUpload req fieldNames = list_ex (FileFields req) fieldNames"

text \<open>
  \<open>writeInlineJSON\<close>: the status it writes and the object it marshals. The result of
  \<open>handleInlineUpdate\<close> is its pair \<open>(handled, response)\<close>, with the store and
  \<open>errors\<close> after the call.
\<close>

record inline_response =
  Status :: nat
  Body :: "(string \<times> string) list"

record inline_result =
  Handled :: bool
  Response :: "inline_response option"
  Store :: db
  Errors :: errors

definition declined :: "db \<Rightarrow> errors \<Rightarrow> inline_result" where
  "declined d errors = \<lparr>Handled = False, Response = None, Store = d, Errors = errors\<rparr>"

definition answered :: "db \<Rightarrow> nat \<Rightarrow> (string \<times> string) list \<Rightarrow> errors \<Rightarrow> inline_result" where
  "answered d status payload errors =
    \<lparr>Handled = True, Response = Some \<lparr>Status = status, Body = payload\<rparr>,
     Store = d, Errors = errors\<rparr>"

text \<open>The multipart block of the handler: the value to store, or the response that ends
  the call.\<close>

definition inlineUploadValue ::
    "db \<Rightarrow> http_request \<Rightarrow> Fields \<Rightarrow> string \<Rightarrow> string \<Rightarrow> errors
      \<Rightarrow> inline_result + string" where
  "inlineUploadValue d req cfg bindKey v errors =
    (if strings_HasPrefix (ContentTypeHeader req) ''multipart/form-data'' then
       (let uploadDir = resolveUploadDir cfg in
        if uploadDir = [] \<and> hasFileUpload req [''file'', bindKey]
        then Inl (answered d 400 [(''error'', ''upload_dir is required for file uploads'')]
                    errors)
        else if uploadDir \<noteq> [] then
          (case SaveUpload req ''file'' uploadDir of
             Inl e \<Rightarrow> Inl (answered d 400 [(''error'', ''upload failed'')]
                            (appendError errors ''upload failed'' e))
           | Inr path \<Rightarrow>
               (case (if path = [] then SaveUpload req bindKey uploadDir else Inr path) of
                  Inl e \<Rightarrow> Inl (answered d 400 [(''error'', ''upload failed'')]
                                 (appendError errors ''upload failed'' e))
                | Inr path \<Rightarrow> Inr (if path \<noteq> [] then path else v)))
        else Inr v)
     else Inr v)"

definition handleInlineUpdate ::
    "caseTable \<Rightarrow> nat \<Rightarrow> request_context \<Rightarrow> db \<Rightarrow> string \<Rightarrow> binds \<Rightarrow> Fields \<Rightarrow> smap
      \<Rightarrow> errors \<Rightarrow> inline_result" where
  "handleInlineUpdate tbl now ctx d contentType binds cfg template errors =
    (case Request ctx of
       None \<Rightarrow> declined d errors
     | Some req \<Rightarrow>
         if Method req \<noteq> ''POST'' then declined d errors
         else (case parseInlinePayload req ctx cfg errors of
             (Inl e, errors) \<Rightarrow>
               answered d 400 [(''error'', ''invalid inline payload'')]
                 (appendError errors ''inline parse failed'' e)
           | (Inr payload, errors) \<Rightarrow>
               if \<not> parseBoolFlag tbl (Inline payload) then declined d errors
               else let bindKey = strings_TrimSpace (Bind payload) in
                 if bindKey = [] then answered d 400 [(''error'', ''bind is required'')] errors
                 else if map_of binds bindKey = None then
                   (if hasBoundaryPlugin tbl (Map template) then declined d errors
                    else answered d 400 [(''error'', ''unknown bind'')] errors)
                 else let recordID = parseRecordID (strings_TrimSpace (RecordID payload));
                          recordID = (if recordID = 0
                                      then resolveRecordID ctx (resolveRecordParam cfg)
                                      else recordID)
                   in if recordID = 0
                      then answered d 400 [(''error'', ''record_id is required'')] errors
                      else (case inlineUploadValue d req cfg bindKey (Value payload) errors of
                          Inl result \<Rightarrow> result
                        | Inr v \<Rightarrow>
                            (case updateRecordField now d recordID contentType bindKey v of
                               (d', Some e) \<Rightarrow>
                                 answered d' 500 [(''error'', ''update failed'')]
                                   (appendError errors ''inline update failed'' e)
                             | (d', None) \<Rightarrow>
                                 answered d' 200
                                   [(''status'', ''ok''),
                                    (''record_id'', strconv_FormatInt recordID),
                                    (''bind'', bindKey),
                                    (''value'', v)] errors))))"
subsection \<open>Positions in a template\<close>

text \<open>
  \<open>outsideBoundary t n\<close>: the node \<open>n\<close> occurs in \<open>t\<close> at a position that is not
  strictly inside a boundary, that is, no node passed on the way from \<open>t\<close> down to \<open>n\<close>
  is a boundary (\<open>n\<close> itself may be one). A \<open>map[interface{}]interface{}\<close> counts as the
  map it normalizes to.
\<close>

inductive outsideBoundary :: "caseTable \<Rightarrow> node \<Rightarrow> node \<Rightarrow> bool" for tbl where
  here: "outsideBoundary tbl n n"
| in_map: "\<not> isBoundaryPlugin tbl m \<Longrightarrow> (k, c) \<in> set m \<Longrightarrow> outsideBoundary tbl c n
    \<Longrightarrow> outsideBoundary tbl (Map m) n"
| in_imap: "outsideBoundary tbl (Map (normalizeInterfaceMap im)) n \<Longrightarrow> outsideBoundary tbl (IMap im) n"
| in_seq: "c \<in> set xs \<Longrightarrow> outsideBoundary tbl c n \<Longrightarrow> outsideBoundary tbl (Seq xs) n"

text \<open>
  \<open>walked m n\<close>: the map \<open>n\<close> is \<open>m\<close> or is reached from it through children that are
  maps, under keys that do not start with \<open>@\<close>, without passing a boundary.
\<close>

inductive walked :: "caseTable \<Rightarrow> smap \<Rightarrow> smap \<Rightarrow> bool" for tbl where
  start: "walked tbl m m"
| child: "\<not> isBoundaryPlugin tbl m \<Longrightarrow> (k, Map c) \<in> set m \<Longrightarrow> \<not> strings_HasPrefix k ''@''
    \<Longrightarrow> walked tbl c n \<Longrightarrow> walked tbl m n"
| ichild: "\<not> isBoundaryPlugin tbl m \<Longrightarrow> (k, IMap c) \<in> set m \<Longrightarrow> \<not> strings_HasPrefix k ''@''
    \<Longrightarrow> walked tbl (normalizeInterfaceMap c) n \<Longrightarrow> walked tbl m n"

text \<open>
  \<open>boundaryWithin t\<close>: \<open>t\<close> is a boundary, or holds one at a position reached through
  entries of maps whose keys do not start with \<open>@\<close> and through elements of sequences.
\<close>

inductive boundaryWithin :: "caseTable \<Rightarrow> node \<Rightarrow> bool" for tbl where
  at_map: "isBoundaryPlugin tbl m \<Longrightarrow> boundaryWithin tbl (Map m)"
| below_key: "(k, c) \<in> set m \<Longrightarrow> \<not> strings_HasPrefix k ''@'' \<Longrightarrow> boundaryWithin tbl c
    \<Longrightarrow> boundaryWithin tbl (Map m)"
| below_imap: "boundaryWithin tbl (Map (normalizeInterfaceMap im)) \<Longrightarrow> boundaryWithin tbl (IMap im)"
| below_seq: "c \<in> set xs \<Longrightarrow> boundaryWithin tbl c \<Longrightarrow> boundaryWithin tbl (Seq xs)"

text \<open>\<open>emptySeqs\<close> empties every sequence of a tree, at any depth.\<close>

fun emptySeqs :: "node \<Rightarrow> node" where
  "emptySeqs (Seq xs) = Seq []"
| "emptySeqs (Map m) = Map (map (\<lambda>kv. (fst kv, emptySeqs (snd kv))) m)"
| "emptySeqs (IMap m) = IMap (map (\<lambda>kv. (fst kv, emptySeqs (snd kv))) m)"
| "emptySeqs v = v"

definition emptySeqs_map :: "smap \<Rightarrow> smap" where
  "emptySeqs_map m = map (\<lambda>kv. (fst kv, emptySeqs (snd kv))) m"

text \<open>
  \<open>settable root path\<close>: the last part of the path is not empty, and the parts before
  it lead to a node that takes it: a map, or a slice that has the index it names.
\<close>

definition accepts :: "node \<Rightarrow> string \<Rightarrow> bool" where
  "accepts parent part =
    (case parent of
       Map node \<Rightarrow> True
     | IMap node \<Rightarrow> True
     | Seq node \<Rightarrow>
         (case strconv_Atoi part of
            None \<Rightarrow> False
          | Some idx \<Rightarrow> 0 \<le> idx \<and> idx < int (length node))
     | _ \<Rightarrow> False)"

definition settable :: "smap \<Rightarrow> string \<Rightarrow> bool" where
  "settable root path =
    (let parts = strings_Split path CHR ''.'';
         part = strings_TrimSpace (last parts)
     in part \<noteq> [] \<and>
        (case getAtPath_loop (Map root) (butlast parts) of
           None \<Rightarrow> False
         | Some parent \<Rightarrow> accepts parent part))"

subsection \<open>Stores and records in the statements below\<close>

text \<open>
  \<open>fieldRow\<close> is the row that one insert of \<open>upsertFields\<close> adds. \<open>matches\<close> is the
  condition of the statements on \<open>records\<close>: the id, and the type when one is given.
  \<open>recordExists\<close>: the store has a record with that id, of that type when one is given.
\<close>

definition fieldRow :: "int \<Rightarrow> string \<times> string \<Rightarrow> field_row" where
  "fieldRow recordID kv = \<lparr>record_id = recordID, bind_key = fst kv, field_value = snd kv\<rparr>"

definition matches :: "int \<Rightarrow> string \<Rightarrow> record_row \<Rightarrow> bool" where
  "matches recordID contentType r =
    (row_id r = recordID \<and> (contentType = [] \<or> row_type r = contentType))"

definition recordExists :: "db \<Rightarrow> int \<Rightarrow> string \<Rightarrow> bool" where
  "recordExists d recordID contentType = list_ex (matches recordID contentType) (records d)"

text \<open>
  \<open>idsIssued\<close>: every record has an id that the \<open>AUTOINCREMENT\<close> counter has
  issued, so ids start at 1. The empty store has the property and every function that
  writes keeps it.
\<close>

definition idsIssued :: "db \<Rightarrow> bool" where
  "idsIssued d =
    (0 \<le> sequence d \<and> list_all (\<lambda>r. 0 < row_id r \<and> row_id r \<le> sequence d) (records d))"

text \<open>The store of a database file that \<open>initSchema\<close> has just created.\<close>

definition emptyStore :: db where
  "emptyStore = \<lparr>records = [], record_fields = [], sequence = 0, write_lock = False\<rparr>"

text \<open>
  \<open>noRecordOfType\<close>: the store holds no record of the type. \<open>noneToCount\<close>: the store
  holds no record of the type, and no record at all when the type is blank.
  \<open>seedValue\<close> is the value that seeding stores for a bind: what the template holds at
  the path of the bind, printed with \<open>%v\<close>, the empty string where the path leads
  nowhere.
\<close>

definition noRecordOfType :: "db \<Rightarrow> string \<Rightarrow> bool" where
  "noRecordOfType d contentType = (\<not> list_ex (\<lambda>r. row_type r = contentType) (records d))"

definition noneToCount :: "db \<Rightarrow> string \<Rightarrow> bool" where
  "noneToCount d contentType =
    (if strings_TrimSpace contentType = [] then records d = []
     else noRecordOfType d contentType)"

definition seedValue :: "(node \<Rightarrow> string) \<Rightarrow> smap \<Rightarrow> string \<Rightarrow> string" where
  "seedValue sprint template target =
    (case getAtPath template target of None \<Rightarrow> [] | Some v \<Rightarrow> sprint v)"

text \<open>
  \<open>childWalked kvs n\<close>: \<open>n\<close> is walked from a child of the entries \<open>kvs\<close>.
\<close>

definition childWalked :: "caseTable \<Rightarrow> smap \<Rightarrow> smap \<Rightarrow> bool" where
  "childWalked tbl kvs n =
    (\<exists>k c. (k, c) \<in> set kvs \<and> \<not> strings_HasPrefix k ''@''
       \<and> ((\<exists>m. c = Map m \<and> walked tbl m n)
          \<or> (\<exists>im. c = IMap im \<and> walked tbl (normalizeInterfaceMap im) n)))"

subsection \<open>Example inputs\<close>

text \<open>
  A store with one article, an inline-edit request with a JSON body, a template without
  a boundary, one with a nested ContentRecords plugin, and a template with a list.
  The requests come with an empty \<open>errors\<close> slice.
\<close>

text \<open>
  The rows of \<open>unicode.CaseRanges\<close> for the capitals of Latin-1, \<open>U+00C0\<close> to
  \<open>U+00DE\<close> without the multiplication sign: the table the examples are run with.
\<close>

definition latin1Lower :: caseTable where
  "latin1Lower r = (if 0xC0 \<le> r \<and> r \<le> 0xDE \<and> r \<noteq> 0xD7 then r + 32 else r)"

definition articleStore :: db where
  "articleStore =
    \<lparr>records = [\<lparr>row_id = 1, row_type = ''article'', created_at = 0, updated_at = 0\<rparr>],
     record_fields = [\<lparr>record_id = 1, bind_key = ''title'', field_value = ''A''\<rparr>,
                      \<lparr>record_id = 1, bind_key = ''body'', field_value = ''B''\<rparr>],
     sequence = 1, write_lock = False\<rparr>"

text \<open>
  The store with one article after a call of \<open>updateRecordField\<close> for the record 2,
  which does not exist: the tables are as before and the write lock is taken.
\<close>

definition lockedStore :: db where
  "lockedStore = fst (updateRecordField 6 articleStore 2 [] ''title'' ''C'')"

text \<open>
  The store that the plugin builds from the empty store by seeding the type \<open>article\<close>,
  updating the record 2, which does not exist, and deleting the record 1: it holds no
  record, the field row \<open>(2, title, C)\<close>, and 1 as the last id issued.
\<close>

definition orphanStore :: db where
  "orphanStore =
    fst (deleteRecord
      (fst (updateRecord 5
        (fst (ensureSeed stringOf 3 emptyStore
               [(''10'', Map [(''value'', Str ''Hello'')])] [(''title'', ''10.value'')]
               ''article''))
        2 [] [(''title'', ''C'')]))
      1 [])"

definition jsonRequest :: "(string \<Rightarrow> string) \<Rightarrow> http_request" where
  "jsonRequest body =
    \<lparr>Method = ''POST'', ContentTypeHeader = ''application/json'',
     JSONBody = Inr body, FormError = None, FileFields = (\<lambda>name. False),
     SaveUpload = (\<lambda>name dir. Inr [])\<rparr>"

definition jsonPost :: "(string \<Rightarrow> string) \<Rightarrow> request_context" where
  "jsonPost body = \<lparr>Request = Some (jsonRequest body), Input = (\<lambda>k. [])\<rparr>"

text \<open>A form request whose body does not parse, the inline fields being in the context.\<close>

definition formRequest :: http_request where
  "formRequest =
    \<lparr>Method = ''POST'', ContentTypeHeader = ''application/x-www-form-urlencoded'',
     JSONBody = Inr (\<lambda>k. []), FormError = Some FormInvalid, FileFields = (\<lambda>name. False),
     SaveUpload = (\<lambda>name dir. Inr [])\<rparr>"

definition formPost :: "(string \<Rightarrow> string) \<Rightarrow> request_context" where
  "formPost inputs = \<lparr>Request = Some formRequest, Input = inputs\<rparr>"

definition inlineBody :: "string \<Rightarrow> string \<Rightarrow> string \<Rightarrow> string \<Rightarrow> string" where
  "inlineBody recordID bind v k =
    (if k = ''cr_inline'' then ''1''
     else if k = ''record_id'' then recordID
     else if k = ''bind'' then bind
     else if k = ''value'' then v
     else [])"

definition noConfig :: Fields where
  "noConfig = \<lparr>View = [], Action = [], Mode = [], RecordParam = [], UploadDir = [], Upload = []\<rparr>"

definition listConfig :: Fields where
  "listConfig = \<lparr>View = '' List '', Action = [], Mode = ''edit'', RecordParam = [],
                  UploadDir = [], Upload = []\<rparr>"

text \<open>
  A configuration whose view is \<open>Grid\<close> between spaces and whose action is
  \<open>EDIT\<close> in French capitals, the first letter being \<open>U+00C9\<close>; and a legacy
  configuration that has a mode only.
\<close>

definition gridConfig :: Fields where
  "gridConfig = \<lparr>View = '' Grid '',
                  Action = [CHR 0xC3, CHR 0x89, CHR ''D'', CHR ''I'', CHR ''T''],
                  Mode = [], RecordParam = [], UploadDir = [], Upload = []\<rparr>"

definition cmsConfig :: Fields where
  "cmsConfig = \<lparr>View = [], Action = [], Mode = ''CMS'', RecordParam = [],
                 UploadDir = [], Upload = []\<rparr>"

definition plainTemplate :: smap where
  "plainTemplate =
    [(''@type'', Str ''<TREE>''),
     (''10'', Map [(''@type'', Str ''<TEXT>''), (''value'', Str ''Hello''),
                   (''@bind'', Map [(''field'', Str ''title''), (''path'', Str ''value'')])])]"

definition pluginNode :: smap where
  "pluginNode =
    [(''@type'', Str ''<PLUGIN>''), (''plugin'', Str ''ContentRecords@2.1.0''),
     (''@bind'', Map [(''field'', Str ''teaser''), (''path'', Str ''data.id'')]),
     (''data'', Map [(''template'',
        Map [(''30'', Map [(''value'', Str ''Inner''),
               (''@bind'', Map [(''field'', Str ''subtitle''),
                                 (''path'', Str ''value'')])])])])]"

definition nestedTemplate :: smap where
  "nestedTemplate =
    [(''@type'', Str ''<TREE>''),
     (''10'', Map [(''@type'', Str ''<TEXT>''), (''value'', Str ''Hello''),
                   (''@bind'', Map [(''field'', Str ''title''), (''path'', Str ''value'')])]),
     (''20'', Map pluginNode)]"

text \<open>The same plugin node under a key that starts with \<open>@\<close>.\<close>

definition metaTemplate :: smap where
  "metaTemplate =
    [(''@type'', Str ''<TREE>''),
     (''10'', Map [(''@type'', Str ''<TEXT>''), (''value'', Str ''Hello''),
                   (''@bind'', Map [(''field'', Str ''title''), (''path'', Str ''value'')])]),
     (''@preview'', Map pluginNode)]"

definition innerBind :: node where
  "innerBind = Map [(''field'', Str ''subtitle''), (''path'', Str ''value'')]"

definition boundaryNode :: smap where
  "boundaryNode =
    [(''@type'', Str ''<PLUGIN>''), (''plugin'', Str ''ContentRecords@2.1.0''),
     (''@bind'', Map [(''field'', Str ''teaser''), (''path'', Str ''data.id'')]),
     (''data'', Map [(''@bind'', innerBind)])]"

definition outerTemplate :: smap where
  "outerTemplate = [(''20'', Map boundaryNode)]"

definition listTemplate :: smap where
  "listTemplate =
    [(''10'', Map [(''value'', Str ''Hello''),
                   (''@bind'', Map [(''field'', Str ''title''), (''path'', Str ''value'')])]),
     (''20'', Seq [Map [(''value'', Str ''Item''),
                        (''@bind'', Map [(''field'', Str ''item''), (''path'', Str ''value'')])]])]"

section \<open>Path addressing\<close>

lemma TrimSpace_empty: "strings_TrimSpace [] = []"
  by (simp add: strings_TrimSpace_def trimLeftRunes.simps leadingRune_def space_runes_def)

lemma Split_nonempty: "strings_Split s sep \<noteq> []"
  by (induction s) (auto split: list.splits)

lemma Split_append:
  "strings_Split (p @ sep # q) sep = strings_Split p sep @ strings_Split q sep"
  by (induction p) (auto simp: Split_nonempty split: list.splits)

lemma Split_double_dot:
  "strings_Split (p @ ''..'' @ q) CHR ''.''
    = strings_Split p CHR ''.'' @ [] # strings_Split q CHR ''.''"
  using Split_append[of p "CHR ''.''" "CHR ''.'' # q"] by simp

lemma Split_single_dot:
  "strings_Split (p @ ''.'' @ q) CHR ''.''
    = strings_Split p CHR ''.'' @ strings_Split q CHR ''.''"
  using Split_append[of p "CHR ''.''" q] by simp

text \<open>A write that succeeds is read back along the same parts.\<close>

lemma set_then_get_loop:
  "setAtPath_loop cur parts v = Some cur' \<Longrightarrow> getAtPath_loop cur' parts = Some v"
proof (induction parts arbitrary: cur cur')
  case Nil
  then show ?case by simp
next
  case (Cons p rest)
  show ?case
  proof (cases "strings_TrimSpace p = []")
    case True
    with Cons show ?thesis by simp
  next
    case False
    with Cons.prems Cons.IH show ?thesis
      by (cases cur)
         (auto simp: Let_def update_conv' split: if_splits option.splits)
  qed
qed

lemma setAtPath_loop_Map:
  "setAtPath_loop (Map m) parts v = Some cur' \<Longrightarrow> \<exists>m'. cur' = Map m'"
  by (induction parts) (auto simp: Let_def split: if_splits option.splits)

text \<open>The loop of \<open>setAtPath\<close> succeeds exactly when the parts before the last lead to a
  node that takes the last part.\<close>

lemma set_loop_succeeds:
  "(setAtPath_loop cur (ps @ [lst]) v \<noteq> None) =
   (strings_TrimSpace lst \<noteq> [] \<and>
    (\<exists>parent. getAtPath_loop cur ps = Some parent \<and> accepts parent (strings_TrimSpace lst)))"
proof (induction ps arbitrary: cur)
  case Nil
  show ?case
    by (cases cur) (auto simp: Let_def accepts_def split: option.splits)
next
  case (Cons p ps)
  show ?case
  proof (cases "strings_TrimSpace p = []")
    case True
    with Cons show ?thesis by simp
  next
    case False
    show ?thesis
    proof (cases cur)
      case (Map node)
      show ?thesis
      proof (cases "map_of node (strings_TrimSpace p)")
        case None
        with False Map show ?thesis by (simp add: Let_def)
      next
        case (Some nxt)
        with False Map Cons.IH[of nxt] show ?thesis
          by (auto simp: Let_def split: option.splits)
      qed
    next
      case (IMap node)
      show ?thesis
      proof (cases "map_of node (KStr (strings_TrimSpace p))")
        case None
        with False IMap show ?thesis by (simp add: Let_def)
      next
        case (Some nxt)
        with False IMap Cons.IH[of nxt] show ?thesis
          by (auto simp: Let_def split: option.splits)
      qed
    next
      case (Seq node)
      show ?thesis
      proof (cases "strconv_Atoi (strings_TrimSpace p)")
        case None
        with False Seq show ?thesis by (simp add: Let_def)
      next
        case (Some idx)
        with False Seq Cons.IH[of "node ! nat idx"] show ?thesis
          by (auto simp: Let_def split: option.splits)
      qed
    qed (use False in \<open>simp_all add: Let_def\<close>)
  qed
qed

lemma setAtPath_succeeds: "fst (setAtPath root p v) = settable root p"
proof -
  let ?parts = "strings_Split p CHR ''.''"
  have parts: "?parts = butlast ?parts @ [last ?parts]"
    using Split_nonempty by simp
  have "fst (setAtPath root p v) = (setAtPath_loop (Map root) ?parts v \<noteq> None)"
    unfolding setAtPath_def
    by (auto split: option.splits node.splits dest: setAtPath_loop_Map)
  also have "\<dots> = (setAtPath_loop (Map root) (butlast ?parts @ [last ?parts]) v \<noteq> None)"
    using parts by simp
  also have "\<dots> = settable root p"
    unfolding set_loop_succeeds settable_def Let_def
    by (auto split: option.splits)
  finally show ?thesis .
qed

text \<open>
  Claim C6, as the code has it. \<open>setAtPath(T, p, v)\<close> returns true exactly when the last
  segment of \<open>p\<close> is not empty and the segments before it lead to a map, or to a list
  that has the index the last segment names. In that case \<open>getAtPath(T, p)\<close> on the tree
  as written returns \<open>(v, true)\<close>; in every other case \<open>setAtPath\<close> returns false and
  leaves the tree as it was. Boundaries play no part: neither function looks for them.
\<close>

theorem setAtPath_then_getAtPath:
  "fst (setAtPath root p v) = settable root p
   \<and> (settable root p \<longrightarrow> getAtPath (snd (setAtPath root p v)) p = Some v)
   \<and> (\<not> settable root p \<longrightarrow> snd (setAtPath root p v) = root)"
proof (intro conjI impI)
  show "fst (setAtPath root p v) = settable root p" by (rule setAtPath_succeeds)
next
  assume "settable root p"
  then have "fst (setAtPath root p v)" by (simp add: setAtPath_succeeds)
  then show "getAtPath (snd (setAtPath root p v)) p = Some v"
    unfolding setAtPath_def getAtPath_def
    by (auto split: option.splits node.splits dest: set_then_get_loop)
next
  assume "\<not> settable root p"
  then have "\<not> fst (setAtPath root p v)" by (simp add: setAtPath_succeeds)
  then show "snd (setAtPath root p v) = root"
    unfolding setAtPath_def by (auto split: option.splits node.splits)
qed

theorem setAtPath_then_getAtPath_witness:
  "settable [(''a'', Map [(''b'', Str ''x'')])] ''a.b''
   \<and> fst (setAtPath [(''a'', Map [(''b'', Str ''x'')])] ''a.b'' (Str ''y''))
   \<and> getAtPath (snd (setAtPath [(''a'', Map [(''b'', Str ''x'')])] ''a.b'' (Str ''y''))) ''a.b''
       = Some (Str ''y'')
   \<and> \<not> settable [] ''a.b''
   \<and> snd (setAtPath [] ''a.b'' (Str ''y'')) = []"
proof -
  have yes: "settable [(''a'', Map [(''b'', Str ''x'')])] ''a.b''" by code_simp
  have no: "\<not> settable [] ''a.b''" by code_simp
  show ?thesis
    using yes no
      setAtPath_then_getAtPath[of "[(''a'', Map [(''b'', Str ''x'')])]" "''a.b''" "Str ''y''"]
      setAtPath_then_getAtPath[of "[]" "''a.b''" "Str ''y''"]
    by simp
qed

text \<open>
  Claim C6 as the specification states it fails: on the empty tree the path \<open>a.b\<close>
  crosses no boundary, \<open>setAtPath\<close> finds no key \<open>a\<close> and returns false, and
  \<open>getAtPath\<close> then finds nothing.
\<close>

theorem setAtPath_missing_key_counterexample:
  "setAtPath [] ''a.b'' (Str ''v'') = (False, [])
   \<and> getAtPath (snd (setAtPath [] ''a.b'' (Str ''v''))) ''a.b'' = None"
  by code_simp

lemma get_skip_empty:
  "getAtPath_loop cur (ps @ [] # qs) = getAtPath_loop cur (ps @ qs)"
  by (induction ps arbitrary: cur)
     (auto simp: Let_def TrimSpace_empty split: node.splits option.splits)

lemma set_skip_empty:
  "qs \<noteq> [] \<Longrightarrow> setAtPath_loop cur (ps @ [] # qs) v = setAtPath_loop cur (ps @ qs) v"
  by (induction ps arbitrary: cur)
     (auto simp: Let_def TrimSpace_empty split: node.splits option.splits)

lemma set_all_empty:
  "\<forall>p\<in>set parts. strings_TrimSpace p = [] \<Longrightarrow> setAtPath_loop cur parts v = None"
  by (induction parts) auto

text \<open>
  Claim C10. Empty segments are skipped: \<open>getAtPath(root, "")\<close> returns the root itself;
  a path with a doubled dot addresses the node that the path with the single dot
  addresses, for reading and for writing; and \<open>setAtPath\<close> on a path all of whose
  segments are empty (after trimming, as the loop does) returns false and leaves the tree
  as it was.
\<close>

theorem empty_segments_skipped:
  "getAtPath root [] = Some (Map root)
   \<and> getAtPath root (p @ ''..'' @ q) = getAtPath root (p @ ''.'' @ q)
   \<and> setAtPath root (p @ ''..'' @ q) v = setAtPath root (p @ ''.'' @ q) v
   \<and> ((\<forall>part \<in> set (strings_Split path CHR ''.''). strings_TrimSpace part = [])
        \<longrightarrow> setAtPath root path v = (False, root))"
proof (intro conjI impI)
  show "getAtPath root [] = Some (Map root)"
    by (simp add: getAtPath_def TrimSpace_empty)
next
  show "getAtPath root (p @ ''..'' @ q) = getAtPath root (p @ ''.'' @ q)"
    unfolding getAtPath_def Split_double_dot Split_single_dot by (rule get_skip_empty)
next
  have "setAtPath_loop (Map root) (strings_Split p CHR ''.'' @ [] # strings_Split q CHR ''.'') v
      = setAtPath_loop (Map root) (strings_Split p CHR ''.'' @ strings_Split q CHR ''.'') v"
    by (rule set_skip_empty) (rule Split_nonempty)
  then show "setAtPath root (p @ ''..'' @ q) v = setAtPath root (p @ ''.'' @ q) v"
    unfolding setAtPath_def Split_double_dot Split_single_dot by simp
next
  assume "\<forall>part \<in> set (strings_Split path CHR ''.''). strings_TrimSpace part = []"
  then have "setAtPath_loop (Map root) (strings_Split path CHR ''.'') v = None"
    by (rule set_all_empty)
  then show "setAtPath root path v = (False, root)"
    by (simp add: setAtPath_def)
qed

theorem empty_segments_skipped_witness:
  "getAtPath [(''a'', Map [(''b'', Str ''x'')])] ''a..b''
     = getAtPath [(''a'', Map [(''b'', Str ''x'')])] ''a.b''
   \<and> getAtPath [(''a'', Map [(''b'', Str ''x'')])] ''a.b'' = Some (Str ''x'')
   \<and> list_all (\<lambda>part. strings_TrimSpace part = []) (strings_Split '' . '' CHR ''.'')
   \<and> setAtPath [(''a'', Map [(''b'', Str ''x'')])] '' . '' (Str ''y'')
     = (False, [(''a'', Map [(''b'', Str ''x'')])])"
proof -
  have blank: "list_all (\<lambda>part. strings_TrimSpace part = []) (strings_Split '' . '' CHR ''.'')"
    by code_simp
  have found: "getAtPath [(''a'', Map [(''b'', Str ''x'')])] ''a.b'' = Some (Str ''x'')"
    by code_simp
  show ?thesis
    using blank found
      empty_segments_skipped[of "[(''a'', Map [(''b'', Str ''x'')])]" "''a''" "''b''"
        "Str ''y''" "'' . ''"]
    by (simp add: list_all_iff)
qed

section \<open>The view/action resolver\<close>

text \<open>
  Claim C5, as the code has it. The resolver yields one of the four pairs of
  list or single with render or edit exactly when the trimmed, lower-cased \<open>view\<close> is
  empty, \<open>list\<close> or \<open>single\<close> and the trimmed, lower-cased \<open>action\<close> is empty,
  \<open>render\<close> or \<open>edit\<close>. A \<open>view\<close> or an \<open>action\<close> that is not empty once
  trimmed is returned trimmed and lower-cased, whatever it is. An empty one is
  defaulted: when both are empty the legacy \<open>mode\<close> decides, \<open>cms\<close> giving
  \<open>(list, edit)\<close>, \<open>edit\<close> giving \<open>(single, edit)\<close> and every other mode
  \<open>(list, render)\<close>; otherwise an empty \<open>view\<close> becomes \<open>list\<close> and an empty
  \<open>action\<close> becomes \<open>render\<close>. \<open>Render\<close> takes its fallback branch exactly when
  the resolved pair is none of the four.
\<close>

theorem resolveViewAction_modes:
  "(resolveViewAction tbl cfg \<in> {(''list'', ''render''), (''list'', ''edit''),
                                  (''single'', ''render''), (''single'', ''edit'')})
     = (strings_ToLower tbl (strings_TrimSpace (View cfg)) \<in> {[], ''list'', ''single''}
        \<and> strings_ToLower tbl (strings_TrimSpace (Action cfg)) \<in> {[], ''render'', ''edit''})
   \<and> (Render_switch tbl cfg = UnknownViewAction)
     = (\<not> (strings_ToLower tbl (strings_TrimSpace (View cfg)) \<in> {[], ''list'', ''single''}
           \<and> strings_ToLower tbl (strings_TrimSpace (Action cfg)) \<in> {[], ''render'', ''edit''}))
   \<and> (strings_ToLower tbl (strings_TrimSpace (View cfg)) \<noteq> [] \<longrightarrow>
        fst (resolveViewAction tbl cfg) = strings_ToLower tbl (strings_TrimSpace (View cfg)))
   \<and> (strings_ToLower tbl (strings_TrimSpace (Action cfg)) \<noteq> [] \<longrightarrow>
        snd (resolveViewAction tbl cfg) = strings_ToLower tbl (strings_TrimSpace (Action cfg)))
   \<and> (strings_ToLower tbl (strings_TrimSpace (View cfg)) = []
        \<and> strings_ToLower tbl (strings_TrimSpace (Action cfg)) \<noteq> [] \<longrightarrow>
        fst (resolveViewAction tbl cfg) = ''list'')
   \<and> (strings_ToLower tbl (strings_TrimSpace (View cfg)) \<noteq> []
        \<and> strings_ToLower tbl (strings_TrimSpace (Action cfg)) = [] \<longrightarrow>
        snd (resolveViewAction tbl cfg) = ''render'')
   \<and> (strings_ToLower tbl (strings_TrimSpace (View cfg)) = []
        \<and> strings_ToLower tbl (strings_TrimSpace (Action cfg)) = [] \<longrightarrow>
        resolveViewAction tbl cfg
          = (if strings_ToLower tbl (strings_TrimSpace (Mode cfg)) = ''cms''
               then (''list'', ''edit'')
             else if strings_ToLower tbl (strings_TrimSpace (Mode cfg)) = ''edit''
               then (''single'', ''edit'')
             else (''list'', ''render'')))"
  unfolding Render_switch_def resolveViewAction_def Let_def
  by (auto split: if_splits)

theorem resolveViewAction_modes_witness:
  "strings_ToLower latin1Lower (strings_TrimSpace (View listConfig)) = ''list''
   \<and> strings_ToLower latin1Lower (strings_TrimSpace (Action listConfig)) = []
   \<and> resolveViewAction latin1Lower listConfig = (''list'', ''render'')
   \<and> Render_switch latin1Lower listConfig \<noteq> UnknownViewAction
   \<and> strings_ToLower latin1Lower (strings_TrimSpace (View gridConfig)) = ''grid''
   \<and> strings_ToLower latin1Lower (strings_TrimSpace (Action gridConfig))
       = [CHR 0xC3, CHR 0xA9, CHR ''d'', CHR ''i'', CHR ''t'']
   \<and> resolveViewAction latin1Lower gridConfig
       = (''grid'', [CHR 0xC3, CHR 0xA9, CHR ''d'', CHR ''i'', CHR ''t''])
   \<and> Render_switch latin1Lower gridConfig = UnknownViewAction
   \<and> strings_ToLower latin1Lower (strings_TrimSpace (Mode cmsConfig)) = ''cms''
   \<and> resolveViewAction latin1Lower cmsConfig = (''list'', ''edit'')"
proof -
  have v: "strings_ToLower latin1Lower (strings_TrimSpace (View listConfig)) = ''list''"
    and a: "strings_ToLower latin1Lower (strings_TrimSpace (Action listConfig)) = []"
    and gv: "strings_ToLower latin1Lower (strings_TrimSpace (View gridConfig)) = ''grid''"
    and ga: "strings_ToLower latin1Lower (strings_TrimSpace (Action gridConfig))
       = [CHR 0xC3, CHR 0xA9, CHR ''d'', CHR ''i'', CHR ''t'']"
    and cv: "strings_ToLower latin1Lower (strings_TrimSpace (View cmsConfig)) = []"
    and ca: "strings_ToLower latin1Lower (strings_TrimSpace (Action cmsConfig)) = []"
    and cm: "strings_ToLower latin1Lower (strings_TrimSpace (Mode cmsConfig)) = ''cms''"
    by code_simp+
  note l = resolveViewAction_modes[of latin1Lower listConfig]
  note g = resolveViewAction_modes[of latin1Lower gridConfig]
  note c = resolveViewAction_modes[of latin1Lower cmsConfig]
  have 1: "resolveViewAction latin1Lower listConfig = (''list'', ''render'')"
    using l unfolding v a by (simp add: prod_eq_iff)
  have 2: "Render_switch latin1Lower listConfig \<noteq> UnknownViewAction"
    using l unfolding v a by simp
  have 3: "resolveViewAction latin1Lower gridConfig
       = (''grid'', [CHR 0xC3, CHR 0xA9, CHR ''d'', CHR ''i'', CHR ''t''])"
    using g unfolding gv ga by (simp add: prod_eq_iff)
  have 4: "Render_switch latin1Lower gridConfig = UnknownViewAction"
    using g unfolding gv ga by simp
  have 5: "resolveViewAction latin1Lower cmsConfig = (''list'', ''edit'')"
    using c unfolding cv ca cm by simp
  show ?thesis
    by (intro conjI v a gv ga cm 1 2 3 4 5)
qed

text \<open>
  Claim C5 as the specification states it fails: the view \<open>grid\<close> is resolved to the
  pair \<open>(grid, render)\<close>, and \<open>Render\<close> takes the fallback branch.
\<close>

theorem resolveViewAction_grid_counterexample:
  "resolveViewAction latin1Lower \<lparr>View = ''grid'', Action = [], Mode = [], RecordParam = [],
                       UploadDir = [], Upload = []\<rparr> = (''grid'', ''render'')
   \<and> Render_switch latin1Lower \<lparr>View = ''grid'', Action = [], Mode = [], RecordParam = [],
                     UploadDir = [], Upload = []\<rparr> = UnknownViewAction"
  by code_simp

section \<open>The record store\<close>

lemma pairs_fieldRow: "map (\<lambda>f. (bind_key f, field_value f)) (map (fieldRow rid) vals) = vals"
  by (induction vals) (auto simp: fieldRow_def)

lemma upsertFields_fresh:
  "distinct (map fst vals) \<Longrightarrow>
   \<forall>f\<in>set (record_fields tx). record_id f = rid \<longrightarrow> bind_key f \<notin> fst ` set vals \<Longrightarrow>
   upsertFields tx rid vals =
     Inr (tx\<lparr>record_fields := record_fields tx @ map (fieldRow rid) vals\<rparr>)"
proof (induction vals arbitrary: tx)
  case Nil
  then show ?case by simp
next
  case (Cons kv vals)
  obtain k v where kv: "kv = (k, v)" by (cases kv)
  let ?tx = "tx\<lparr>record_fields := record_fields tx @ [fieldRow rid (k, v)]\<rparr>"
  have ins: "exec_insert_field rid k v tx = Inr ?tx"
    using Cons.prems(2) kv by (auto simp: exec_insert_field_def fieldRow_def)
  have "upsertFields ?tx rid vals =
      Inr (?tx\<lparr>record_fields := record_fields ?tx @ map (fieldRow rid) vals\<rparr>)"
  proof (rule Cons.IH)
    show "distinct (map fst vals)" using Cons.prems(1) by simp
    show "\<forall>f\<in>set (record_fields ?tx). record_id f = rid \<longrightarrow> bind_key f \<notin> fst ` set vals"
      using Cons.prems kv by (auto simp: fieldRow_def)
  qed
  with ins kv show ?case by simp
qed

lemma scan_map_add:
  "fetchRecordFields_scan rows found =
     map_of (map (\<lambda>f. (bind_key f, field_value f)) rows) ++ found"
proof (induction rows arbitrary: found)
  case Nil
  then show ?case by simp
next
  case (Cons row rows)
  show ?case
    by (rule ext) (auto simp: Cons.IH map_add_def split: option.splits)
qed

lemma fetchRecordFields_map_of:
  "fetchRecordFields d rid =
     map_of (map (\<lambda>f. (bind_key f, field_value f))
              (filter (\<lambda>f. record_id f = rid) (record_fields d)))"
  by (simp add: fetchRecordFields_def scan_map_add)

lemma fetchRecordByID_exists:
  "rid \<noteq> 0 \<Longrightarrow> recordExists d rid t \<Longrightarrow>
   fetchRecordByID d rid t = Inr \<lparr>ID = rid, FieldValues = fetchRecordFields d rid\<rparr>"
proof -
  assume rid: "rid \<noteq> 0" and ex: "recordExists d rid t"
  then obtain r where r: "r \<in> set (records d)" "matches rid t r"
    by (auto simp: recordExists_def list_ex_iff)
  show ?thesis
  proof (cases "t = []")
    case True
    with r have "filter (\<lambda>r. row_id r = rid) (records d) \<noteq> []"
      by (auto simp: filter_empty_conv matches_def)
    then obtain x xs where xs: "filter (\<lambda>r. row_id r = rid) (records d) = x # xs"
      by (cases "filter (\<lambda>r. row_id r = rid) (records d)") auto
    then have "x \<in> set (filter (\<lambda>r. row_id r = rid) (records d))" by simp
    then have "row_id x = rid" by simp
    with xs True rid show ?thesis by (simp add: fetchRecordByID_def)
  next
    case False
    with r have "filter (\<lambda>r. row_id r = rid \<and> row_type r = t) (records d) \<noteq> []"
      by (auto simp: filter_empty_conv matches_def)
    then obtain x xs where xs: "filter (\<lambda>r. row_id r = rid \<and> row_type r = t) (records d) = x # xs"
      by (cases "filter (\<lambda>r. row_id r = rid \<and> row_type r = t) (records d)") auto
    then have "x \<in> set (filter (\<lambda>r. row_id r = rid \<and> row_type r = t) (records d))" by simp
    then have "row_id x = rid" by simp
    with xs False rid show ?thesis by (simp add: fetchRecordByID_def)
  qed
qed

lemma list_ex_touch:
  "list_ex (matches rid t) (map (\<lambda>r. if c r then r\<lparr>updated_at := now\<rparr> else r) rs)
     = list_ex (matches rid t) rs"
  by (induction rs) (auto simp: matches_def)

lemma recordExists_touch:
  "recordExists (fst (exec_touch_records now c d)) rid t = recordExists d rid t"
  by (simp add: recordExists_def exec_touch_records_def list_ex_touch)

lemma updateRecord_locked:
  "write_lock d \<Longrightarrow> updateRecord now d recordID contentType vals = (d, Some DatabaseLocked)"
  by (simp add: updateRecord_def)

lemma updateRecord_result:
  assumes "distinct (map fst vals)" and "\<not> write_lock d"
  shows "updateRecord now d recordID contentType vals =
    ((exec_delete_fields recordID (fst (exec_touch_records now (matches recordID contentType) d)))
       \<lparr>record_fields :=
          filter (\<lambda>f. record_id f \<noteq> recordID) (record_fields d) @ map (fieldRow recordID) vals\<rparr>,
     None)"
proof -
  let ?tx = "exec_delete_fields recordID (fst (exec_touch_records now (matches recordID contentType) d))"
  have touch: "(if contentType \<noteq> []
        then fst (exec_touch_records now
                    (\<lambda>r. row_id r = recordID \<and> row_type r = contentType) d)
        else fst (exec_touch_records now (\<lambda>r. row_id r = recordID) d))
      = fst (exec_touch_records now (matches recordID contentType) d)"
    by (auto simp: matches_def exec_touch_records_def)
  have "upsertFields ?tx recordID vals =
      Inr (?tx\<lparr>record_fields := record_fields ?tx @ map (fieldRow recordID) vals\<rparr>)"
    by (rule upsertFields_fresh) (use assms in \<open>auto simp: exec_delete_fields_def\<close>)
  then show ?thesis
    unfolding updateRecord_def touch using assms(2)
    by (simp add: Let_def exec_delete_fields_def exec_touch_records_def)
qed

lemma idsIssued_nonzero:
  "idsIssued d \<Longrightarrow> recordExists d recordID contentType \<Longrightarrow> recordID \<noteq> 0"
  by (auto simp: idsIssued_def recordExists_def list_all_iff list_ex_iff matches_def)

text \<open>
  Claim C1, as the code has it. On a store whose ids were issued by the store and whose
  write lock is free, for every record that exists (of the given type, when one is
  given) and every map of field values, \<open>updateRecord\<close> succeeds and a fetch by id then
  returns exactly the values given: every field that the map omits is gone. While a
  transaction that was left open holds the write lock, \<open>updateRecord\<close> returns
  \<open>database is locked\<close> and changes nothing.
\<close>

theorem updateRecord_replaces_all_fields:
  assumes "idsIssued d" and "recordExists d recordID contentType"
    and "distinct (map fst vals)"
  shows "(\<not> write_lock d \<longrightarrow>
      snd (updateRecord now d recordID contentType vals) = None
      \<and> fetchRecordByID (fst (updateRecord now d recordID contentType vals)) recordID contentType
          = Inr \<lparr>ID = recordID, FieldValues = map_of vals\<rparr>)
    \<and> (write_lock d \<longrightarrow>
      updateRecord now d recordID contentType vals = (d, Some DatabaseLocked))"
proof -
  have locked: "updateRecord now d recordID contentType vals = (d, Some DatabaseLocked)"
    if "write_lock d"
    using that by (rule updateRecord_locked)
  have replaced: "snd (updateRecord now d recordID contentType vals) = None
      \<and> fetchRecordByID (fst (updateRecord now d recordID contentType vals)) recordID contentType
          = Inr \<lparr>ID = recordID, FieldValues = map_of vals\<rparr>"
    if free: "\<not> write_lock d"
  proof -
    let ?d' = "fst (updateRecord now d recordID contentType vals)"
    note res = updateRecord_result[OF assms(3) free]
    have nonzero: "recordID \<noteq> 0"
      using assms(1,2) by (rule idsIssued_nonzero)
    have fields: "record_fields ?d'
        = filter (\<lambda>f. record_id f \<noteq> recordID) (record_fields d) @ map (fieldRow recordID) vals"
      by (simp add: res)
    have rows: "records ?d'
        = records (fst (exec_touch_records now (matches recordID contentType) d))"
      by (simp add: res exec_delete_fields_def)
    have ex: "recordExists ?d' recordID contentType"
      using assms(2)
        recordExists_touch[of now "matches recordID contentType" d recordID contentType]
      by (simp add: recordExists_def rows)
    have own: "filter (\<lambda>f. record_id f = recordID) (record_fields ?d')
        = map (fieldRow recordID) vals"
      unfolding fields by (auto simp: fieldRow_def filter_empty_conv intro!: filter_True)
    have "fetchRecordFields ?d' recordID = map_of vals"
      unfolding fetchRecordFields_map_of own by (simp only: pairs_fieldRow)
    with fetchRecordByID_exists[OF nonzero ex] show ?thesis
      by (simp add: res)
  qed
  from locked replaced show ?thesis by blast
qed

theorem updateRecord_replaces_all_fields_witness:
  "idsIssued articleStore \<and> recordExists articleStore 1 ''article''
   \<and> \<not> write_lock articleStore
   \<and> fetchRecordByID articleStore 1 ''article''
       = Inr \<lparr>ID = 1, FieldValues = [''title'' \<mapsto> ''A'', ''body'' \<mapsto> ''B'']\<rparr>
   \<and> snd (updateRecord 7 articleStore 1 ''article'' [(''title'', ''C'')]) = None
   \<and> fetchRecordByID (fst (updateRecord 7 articleStore 1 ''article'' [(''title'', ''C'')])) 1 ''article''
       = Inr \<lparr>ID = 1, FieldValues = [''title'' \<mapsto> ''C'']\<rparr>"
proof -
  have inv: "idsIssued articleStore" by code_simp
  have ex: "recordExists articleStore 1 ''article''" by code_simp
  have before: "fetchRecordByID articleStore 1 ''article''
       = Inr \<lparr>ID = 1, FieldValues = [''title'' \<mapsto> ''A'', ''body'' \<mapsto> ''B'']\<rparr>"
    by (auto simp: fetchRecordByID_def articleStore_def fetchRecordFields_def fun_eq_iff)
  have free: "\<not> write_lock articleStore" by (simp add: articleStore_def)
  show ?thesis
    using inv ex before free
      updateRecord_replaces_all_fields[OF inv ex, of "[(''title'', ''C'')]" 7]
    by simp
qed

text \<open>
  Claim C1 as the specification states it fails on a store whose write lock is taken.
  On \<open>lockedStore\<close> the article 1 exists, \<open>updateRecord\<close> with \<open>{title: C}\<close>
  returns \<open>database is locked\<close>, and the record still has its field \<open>body\<close>.
\<close>

theorem updateRecord_locked_counterexample:
  "recordExists lockedStore 1 ''article''
   \<and> records lockedStore = records articleStore
   \<and> record_fields lockedStore = record_fields articleStore
   \<and> updateRecord 7 lockedStore 1 ''article'' [(''title'', ''C'')]
       = (lockedStore, Some DatabaseLocked)
   \<and> fetchRecordFields (fst (updateRecord 7 lockedStore 1 ''article'' [(''title'', ''C'')])) 1
        ''body'' = Some ''B''"
  by code_simp

text \<open>
  Claim C2 fails on the code. \<open>updateRecord\<close> and \<open>deleteRecord\<close> do not look at
  the number of rows their statement on \<open>records\<close> affected. On a store whose only
  record is article 1: \<open>updateRecord\<close> for the missing id 2 returns no error and leaves
  a field row that belongs to no record; \<open>deleteRecord\<close> for the missing id 2 returns no
  error; \<open>deleteRecord\<close> for id 1 with the type \<open>page\<close> returns no error, keeps the
  record and deletes its fields. \<open>updateRecordField\<close>, which checks the rows affected,
  answers the same missing id with \<open>record not found\<close>.
\<close>

theorem updateRecord_deleteRecord_missing_record:
  "updateRecord 7 articleStore 2 [] [(''title'', ''C'')]
     = (articleStore\<lparr>record_fields := record_fields articleStore @
           [\<lparr>record_id = 2, bind_key = ''title'', field_value = ''C''\<rparr>]\<rparr>, None)
   \<and> deleteRecord articleStore 2 [] = (articleStore, None)
   \<and> deleteRecord articleStore 1 ''page'' = (articleStore\<lparr>record_fields := []\<rparr>, None)
   \<and> snd (updateRecordField 7 articleStore 2 [] ''title'' ''C'') = Some RecordNotFound"
  by code_simp

lemma map_of_set_value_at:
  "map_of (map (\<lambda>kv. if fst kv = k then (fst kv, v) else kv) kvs) x =
     (if x = k \<and> k \<in> fst ` set kvs then Some v else map_of kvs x)"
proof (induction kvs)
  case Nil
  then show ?case by simp
next
  case (Cons kv kvs)
  then show ?case by (cases kv) (fastforce simp: image_iff)
qed

lemma map_of_set_value:
  "k \<in> fst ` set kvs \<Longrightarrow>
   map_of (map (\<lambda>kv. if fst kv = k then (fst kv, v) else kv) kvs) = (map_of kvs)(k \<mapsto> v)"
  by (rule ext) (simp add: map_of_set_value_at)

text \<open>
The touch statement of the two update functions, under either form of its condition.
\<close>

lemma touch_matches:
  "(if contentType \<noteq> []
    then exec_touch_records now (\<lambda>r. row_id r = recordID \<and> row_type r = contentType) d
    else exec_touch_records now (\<lambda>r. row_id r = recordID) d)
   = exec_touch_records now (matches recordID contentType) d"
proof -
  have "contentType \<noteq> [] \<Longrightarrow>
      matches recordID contentType = (\<lambda>r. row_id r = recordID \<and> row_type r = contentType)"
    by (auto simp: fun_eq_iff matches_def)
  moreover have "matches recordID [] = (\<lambda>r. row_id r = recordID)"
    by (auto simp: fun_eq_iff matches_def)
  ultimately show ?thesis by auto
qed

lemma touch_matches_rows:
  "snd (exec_touch_records now (matches recordID contentType) d) = 0
    \<longleftrightarrow> \<not> recordExists d recordID contentType"
  by (auto simp: exec_touch_records_def recordExists_def list_ex_iff filter_empty_conv)

lemma update_field_rows:
  "snd (exec_update_field v rid k tx) = 0
    \<longleftrightarrow> \<not> list_ex (\<lambda>f. record_id f = rid \<and> bind_key f = k) (record_fields tx)"
  by (auto simp: exec_update_field_def list_ex_iff filter_empty_conv)

lemma insert_field_fresh:
  "\<not> list_ex (\<lambda>f. record_id f = rid \<and> bind_key f = k) (record_fields tx) \<Longrightarrow>
   exec_insert_field rid k v tx =
     Inr (tx\<lparr>record_fields := record_fields tx @ [fieldRow rid (k, v)]\<rparr>)"
  by (auto simp: exec_insert_field_def list_ex_iff fieldRow_def)

lemma updateRecordField_locked:
  "recordID \<noteq> 0 \<Longrightarrow> strings_TrimSpace bindKey \<noteq> [] \<Longrightarrow> write_lock d \<Longrightarrow>
   updateRecordField now d recordID contentType bindKey v = (d, Some DatabaseLocked)"
  by (simp add: updateRecordField_def)

lemma updateRecordField_result:
  assumes "recordID \<noteq> 0" and "strings_TrimSpace bindKey \<noteq> []"
    and "recordExists d recordID contentType" and "\<not> write_lock d"
  shows "updateRecordField now d recordID contentType bindKey v =
    (d\<lparr>records := map (\<lambda>r. if matches recordID contentType r then r\<lparr>updated_at := now\<rparr> else r)
                     (records d),
       record_fields :=
         (if list_ex (\<lambda>f. record_id f = recordID \<and> bind_key f = bindKey) (record_fields d)
          then map (\<lambda>f. if record_id f = recordID \<and> bind_key f = bindKey
                          then f\<lparr>field_value := v\<rparr> else f) (record_fields d)
          else record_fields d @ [fieldRow recordID (bindKey, v)])\<rparr>,
     None)"
proof -
  let ?touched = "exec_touch_records now (matches recordID contentType) d"
  let ?tx = "fst ?touched"
  let ?upd = "exec_update_field v recordID bindKey ?tx"
  have rows: "snd ?touched \<noteq> 0" using assms(3) by (simp add: touch_matches_rows)
  have fields_tx: "record_fields ?tx = record_fields d"
    by (simp add: exec_touch_records_def)
  have unfold: "updateRecordField now d recordID contentType bindKey v =
      (if snd ?upd = 0
       then (case exec_insert_field recordID bindKey v (fst ?upd) of
               Inl e \<Rightarrow> (leftOpen d, Some e) | Inr tx' \<Rightarrow> (tx', None))
       else (fst ?upd, None))"
    using assms(1,2,4) rows
    unfolding updateRecordField_def touch_matches
    by (simp add: Let_def split_def)
  show ?thesis
  proof (cases "list_ex (\<lambda>f. record_id f = recordID \<and> bind_key f = bindKey) (record_fields d)")
    case True
    then have "snd ?upd \<noteq> 0" by (simp add: update_field_rows fields_tx)
    with unfold True show ?thesis
      by (simp add: exec_update_field_def exec_touch_records_def)
  next
    case False
    then have zero: "snd ?upd = 0" by (simp add: update_field_rows fields_tx)
    have same: "map (\<lambda>f. if record_id f = recordID \<and> bind_key f = bindKey
                          then f\<lparr>field_value := v\<rparr> else f) (record_fields d) = record_fields d"
      using False by (intro map_idI) (auto simp: list_ex_iff)
    have fu: "record_fields (fst ?upd) = record_fields d"
      using same by (simp add: exec_update_field_def exec_touch_records_def)
    have "exec_insert_field recordID bindKey v (fst ?upd) =
        Inr ((fst ?upd)\<lparr>record_fields := record_fields (fst ?upd) @ [fieldRow recordID (bindKey, v)]\<rparr>)"
      by (rule insert_field_fresh) (use False fu in simp)
    with unfold zero False fu show ?thesis
      by (simp add: exec_update_field_def exec_touch_records_def)
  qed
qed

text \<open>
The call for a record that does not exist returns \<open>record not found\<close> and leaves its
transaction open.
\<close>

lemma updateRecordField_missing:
  assumes "recordID \<noteq> 0" and "strings_TrimSpace bindKey \<noteq> []"
    and "\<not> recordExists d recordID contentType" and "\<not> write_lock d"
  shows "updateRecordField now d recordID contentType bindKey v
    = (leftOpen d, Some RecordNotFound)"
proof -
  have "snd (exec_touch_records now (matches recordID contentType) d) = 0"
    using assms(3) by (simp add: touch_matches_rows)
  with assms(1,2,4) show ?thesis
    unfolding updateRecordField_def touch_matches
    by (simp add: Let_def split_def)
qed

lemma filter_set_value:
  "filter (\<lambda>f. record_id f = rid)
     (map (\<lambda>f. if record_id f = recordID \<and> bind_key f = bindKey
                 then f\<lparr>field_value := v\<rparr> else f) rows)
   = map (\<lambda>f. if record_id f = recordID \<and> bind_key f = bindKey
                 then f\<lparr>field_value := v\<rparr> else f)
       (filter (\<lambda>f. record_id f = rid) rows)"
  by (induction rows) auto

lemma pairs_set_value:
  "map (\<lambda>f. (bind_key f, field_value f))
     (map (\<lambda>f. if record_id f = recordID \<and> bind_key f = bindKey
                 then f\<lparr>field_value := v\<rparr> else f)
       (filter (\<lambda>f. record_id f = recordID) rows))
   = map (\<lambda>kv. if fst kv = bindKey then (fst kv, v) else kv)
       (map (\<lambda>f. (bind_key f, field_value f)) (filter (\<lambda>f. record_id f = recordID) rows))"
  by (induction rows) auto

lemma fetchRecordFields_update_field:
  assumes "recordID \<noteq> 0" and "strings_TrimSpace bindKey \<noteq> []"
    and "recordExists d recordID contentType" and "\<not> write_lock d"
  shows "fetchRecordFields (fst (updateRecordField now d recordID contentType bindKey v)) rid =
    (if rid = recordID then (fetchRecordFields d recordID)(bindKey \<mapsto> v)
     else fetchRecordFields d rid)"
proof (cases "list_ex (\<lambda>f. record_id f = recordID \<and> bind_key f = bindKey) (record_fields d)")
  case True
  let ?setv = "\<lambda>f. if record_id f = recordID \<and> bind_key f = bindKey
                    then f\<lparr>field_value := v\<rparr> else f"
  let ?pair = "\<lambda>f. (bind_key f, field_value f)"
  have fields: "record_fields (fst (updateRecordField now d recordID contentType bindKey v))
      = map ?setv (record_fields d)"
    using True by (simp add: updateRecordField_result[OF assms])
  have fetch: "fetchRecordFields (fst (updateRecordField now d recordID contentType bindKey v)) rid
      = map_of (map ?pair (map ?setv (filter (\<lambda>f. record_id f = rid) (record_fields d))))"
    by (simp only: fetchRecordFields_map_of fields filter_set_value)
  show ?thesis
  proof (cases "rid = recordID")
    case same: True
    have mem: "bindKey \<in> fst ` set (map ?pair
              (filter (\<lambda>f. record_id f = recordID) (record_fields d)))"
      using True by (force simp: list_ex_iff)
    have "map_of (map ?pair (map ?setv (filter (\<lambda>f. record_id f = recordID) (record_fields d))))
        = map_of (map (\<lambda>kv. if fst kv = bindKey then (fst kv, v) else kv)
            (map ?pair (filter (\<lambda>f. record_id f = recordID) (record_fields d))))"
      by (simp only: pairs_set_value)
    also have "\<dots> = (fetchRecordFields d recordID)(bindKey \<mapsto> v)"
      unfolding fetchRecordFields_map_of by (rule map_of_set_value[OF mem])
    finally show ?thesis using same fetch by simp
  next
    case other: False
    have "map ?setv (filter (\<lambda>f. record_id f = rid) (record_fields d))
        = filter (\<lambda>f. record_id f = rid) (record_fields d)"
      using other by (intro map_idI) auto
    with other fetch show ?thesis
      by (simp add: fetchRecordFields_map_of)
  qed
next
  case False
  have none: "map_of (map (\<lambda>f. (bind_key f, field_value f))
        (filter (\<lambda>f. record_id f = recordID) (record_fields d))) bindKey = None"
    using False by (force simp: list_ex_iff map_of_eq_None_iff)
  show ?thesis
    using False none
    by (auto simp: updateRecordField_result[OF assms] fetchRecordFields_map_of fieldRow_def
          map_add_def fun_eq_iff split: option.splits)
qed

lemma other_fields_kept:
  assumes "recordID \<noteq> 0" and "strings_TrimSpace bindKey \<noteq> []"
    and "recordExists d recordID contentType" and "\<not> write_lock d"
  shows "filter (\<lambda>f. \<not> (record_id f = recordID \<and> bind_key f = bindKey))
           (record_fields (fst (updateRecordField now d recordID contentType bindKey v)))
       = filter (\<lambda>f. \<not> (record_id f = recordID \<and> bind_key f = bindKey)) (record_fields d)"
proof -
  have keep: "filter (\<lambda>f. \<not> (record_id f = recordID \<and> bind_key f = bindKey))
          (map (\<lambda>f. if record_id f = recordID \<and> bind_key f = bindKey
                      then f\<lparr>field_value := v\<rparr> else f) rows)
      = filter (\<lambda>f. \<not> (record_id f = recordID \<and> bind_key f = bindKey)) rows" for rows
    by (induction rows) auto
  show ?thesis
    using keep[of "record_fields d"]
    by (simp add: updateRecordField_result[OF assms] fieldRow_def)
qed

lemma other_records_kept:
  assumes "recordID \<noteq> 0" and "strings_TrimSpace bindKey \<noteq> []"
    and "recordExists d recordID contentType" and "\<not> write_lock d"
  shows "filter (\<lambda>r. row_id r \<noteq> recordID)
           (records (fst (updateRecordField now d recordID contentType bindKey v)))
       = filter (\<lambda>r. row_id r \<noteq> recordID) (records d)"
    and "map (\<lambda>r. (row_id r, row_type r, created_at r))
           (records (fst (updateRecordField now d recordID contentType bindKey v)))
       = map (\<lambda>r. (row_id r, row_type r, created_at r)) (records d)"
    and "sequence (fst (updateRecordField now d recordID contentType bindKey v)) = sequence d"
proof -
  have keep: "filter (\<lambda>r. row_id r \<noteq> recordID)
          (map (\<lambda>r. if matches recordID contentType r then r\<lparr>updated_at := now\<rparr> else r) rs)
      = filter (\<lambda>r. row_id r \<noteq> recordID) rs" for rs
    by (induction rs) (auto simp: matches_def)
  show "filter (\<lambda>r. row_id r \<noteq> recordID)
           (records (fst (updateRecordField now d recordID contentType bindKey v)))
       = filter (\<lambda>r. row_id r \<noteq> recordID) (records d)"
    using keep[of "records d"] by (simp add: updateRecordField_result[OF assms])
  show "map (\<lambda>r. (row_id r, row_type r, created_at r))
           (records (fst (updateRecordField now d recordID contentType bindKey v)))
       = map (\<lambda>r. (row_id r, row_type r, created_at r)) (records d)"
    by (simp add: updateRecordField_result[OF assms] comp_def if_distrib cong: if_cong)
  show "sequence (fst (updateRecordField now d recordID contentType bindKey v)) = sequence d"
    by (simp add: updateRecordField_result[OF assms])
qed

text \<open>
  Claim C7, as the code has it. \<open>updateRecordField\<close> first rejects a zero id with
  \<open>record id is required\<close> and a blank bind key with \<open>bind key is required\<close>, the store
  unchanged; while the write lock is held it then fails with \<open>database is locked\<close>, the
  store unchanged. Otherwise: when no record with that id (and type, when one is given)
  exists it fails with \<open>record not found\<close> and no record row and no field row has
  changed; when the record exists it succeeds, the fields of that record are as before
  except that the named field holds the new value, the fields of every other record are
  as before, every other field row and every other record row is unchanged, and no
  record changes its id, type or creation time.
\<close>

theorem updateRecordField_frame:
  "(recordID = 0 \<longrightarrow>
      updateRecordField now d recordID contentType bindKey v = (d, Some RecordIdRequired))
   \<and> (recordID \<noteq> 0 \<and> strings_TrimSpace bindKey = [] \<longrightarrow>
      updateRecordField now d recordID contentType bindKey v = (d, Some BindKeyRequired))
   \<and> (recordID \<noteq> 0 \<and> strings_TrimSpace bindKey \<noteq> [] \<and> write_lock d \<longrightarrow>
      updateRecordField now d recordID contentType bindKey v = (d, Some DatabaseLocked))
   \<and> (recordID \<noteq> 0 \<and> strings_TrimSpace bindKey \<noteq> [] \<and> \<not> write_lock d
        \<and> \<not> recordExists d recordID contentType \<longrightarrow>
      snd (updateRecordField now d recordID contentType bindKey v) = Some RecordNotFound
      \<and> records (fst (updateRecordField now d recordID contentType bindKey v)) = records d
      \<and> record_fields (fst (updateRecordField now d recordID contentType bindKey v))
         = record_fields d
      \<and> sequence (fst (updateRecordField now d recordID contentType bindKey v)) = sequence d)
   \<and> (recordID \<noteq> 0 \<and> strings_TrimSpace bindKey \<noteq> [] \<and> \<not> write_lock d
        \<and> recordExists d recordID contentType \<longrightarrow>
      snd (updateRecordField now d recordID contentType bindKey v) = None
      \<and> (\<forall>rid. fetchRecordFields (fst (updateRecordField now d recordID contentType bindKey v)) rid
            = (if rid = recordID then (fetchRecordFields d recordID)(bindKey \<mapsto> v)
               else fetchRecordFields d rid))
      \<and> filter (\<lambda>f. \<not> (record_id f = recordID \<and> bind_key f = bindKey))
           (record_fields (fst (updateRecordField now d recordID contentType bindKey v)))
         = filter (\<lambda>f. \<not> (record_id f = recordID \<and> bind_key f = bindKey)) (record_fields d)
      \<and> filter (\<lambda>r. row_id r \<noteq> recordID)
           (records (fst (updateRecordField now d recordID contentType bindKey v)))
         = filter (\<lambda>r. row_id r \<noteq> recordID) (records d)
      \<and> map (\<lambda>r. (row_id r, row_type r, created_at r))
           (records (fst (updateRecordField now d recordID contentType bindKey v)))
         = map (\<lambda>r. (row_id r, row_type r, created_at r)) (records d)
      \<and> sequence (fst (updateRecordField now d recordID contentType bindKey v)) = sequence d
      \<and> \<not> write_lock (fst (updateRecordField now d recordID contentType bindKey v)))"
proof -
  let ?res = "updateRecordField now d recordID contentType bindKey v"
  have zero: "?res = (d, Some RecordIdRequired)" if "recordID = 0"
    using that by (simp add: updateRecordField_def)
  have blank: "?res = (d, Some BindKeyRequired)"
    if "recordID \<noteq> 0 \<and> strings_TrimSpace bindKey = []"
    using that by (simp add: updateRecordField_def)
  have locked: "?res = (d, Some DatabaseLocked)"
    if "recordID \<noteq> 0 \<and> strings_TrimSpace bindKey \<noteq> [] \<and> write_lock d"
    using that by (simp add: updateRecordField_locked)
  have missing: "snd ?res = Some RecordNotFound \<and> records (fst ?res) = records d
      \<and> record_fields (fst ?res) = record_fields d \<and> sequence (fst ?res) = sequence d"
    if "recordID \<noteq> 0 \<and> strings_TrimSpace bindKey \<noteq> [] \<and> \<not> write_lock d
        \<and> \<not> recordExists d recordID contentType"
    using that by (simp add: updateRecordField_missing leftOpen_def)
  have found: "snd ?res = None
      \<and> (\<forall>rid. fetchRecordFields (fst ?res) rid
            = (if rid = recordID then (fetchRecordFields d recordID)(bindKey \<mapsto> v)
               else fetchRecordFields d rid))
      \<and> filter (\<lambda>f. \<not> (record_id f = recordID \<and> bind_key f = bindKey)) (record_fields (fst ?res))
         = filter (\<lambda>f. \<not> (record_id f = recordID \<and> bind_key f = bindKey)) (record_fields d)
      \<and> filter (\<lambda>r. row_id r \<noteq> recordID) (records (fst ?res))
         = filter (\<lambda>r. row_id r \<noteq> recordID) (records d)
      \<and> map (\<lambda>r. (row_id r, row_type r, created_at r)) (records (fst ?res))
         = map (\<lambda>r. (row_id r, row_type r, created_at r)) (records d)
      \<and> sequence (fst ?res) = sequence d
      \<and> \<not> write_lock (fst ?res)"
    if a: "recordID \<noteq> 0 \<and> strings_TrimSpace bindKey \<noteq> [] \<and> \<not> write_lock d
        \<and> recordExists d recordID contentType"
  proof -
    from a have 1: "recordID \<noteq> 0" and 2: "strings_TrimSpace bindKey \<noteq> []"
      and 3: "recordExists d recordID contentType" and 4: "\<not> write_lock d"
      by simp_all
    have "snd ?res = None" "\<not> write_lock (fst ?res)"
      using 4 by (simp_all add: updateRecordField_result[OF 1 2 3 4])
    with fetchRecordFields_update_field[OF 1 2 3 4] other_fields_kept[OF 1 2 3 4]
      other_records_kept[OF 1 2 3 4]
    show ?thesis by simp
  qed
  from zero blank locked missing found show ?thesis by blast
qed

theorem updateRecordField_frame_witness:
  "recordExists articleStore 1 ''article'' \<and> \<not> write_lock articleStore
   \<and> snd (updateRecordField 7 articleStore 1 ''article'' ''body'' ''X'') = None
   \<and> fetchRecordFields (fst (updateRecordField 7 articleStore 1 ''article'' ''body'' ''X'')) 1
       = [''title'' \<mapsto> ''A'', ''body'' \<mapsto> ''X'']
   \<and> \<not> recordExists articleStore 2 ''article''
   \<and> snd (updateRecordField 7 articleStore 2 ''article'' ''body'' ''X'') = Some RecordNotFound
   \<and> records (fst (updateRecordField 7 articleStore 2 ''article'' ''body'' ''X''))
       = records articleStore
   \<and> record_fields (fst (updateRecordField 7 articleStore 2 ''article'' ''body'' ''X''))
       = record_fields articleStore
   \<and> updateRecordField 7 articleStore 0 ''article'' ''body'' ''X''
       = (articleStore, Some RecordIdRequired)
   \<and> updateRecordField 7 articleStore 1 ''article'' '' '' ''X''
       = (articleStore, Some BindKeyRequired)
   \<and> write_lock (leftOpen articleStore)
   \<and> updateRecordField 7 (leftOpen articleStore) 1 ''article'' ''body'' ''X''
       = (leftOpen articleStore, Some DatabaseLocked)"
proof -
  have ex: "recordExists articleStore 1 ''article''" by code_simp
  have nex: "\<not> recordExists articleStore 2 ''article''" by code_simp
  have free: "\<not> write_lock articleStore" by (simp add: articleStore_def)
  have held: "write_lock (leftOpen articleStore)" by (simp add: leftOpen_def)
  have key: "strings_TrimSpace ''body'' \<noteq> []" by code_simp
  have blank: "strings_TrimSpace '' '' = []" by code_simp
  have before: "fetchRecordFields articleStore 1 = [''title'' \<mapsto> ''A'', ''body'' \<mapsto> ''B'']"
    by (auto simp: articleStore_def fetchRecordFields_def fun_eq_iff)
  have upd: "[''title'' \<mapsto> ''A'', ''body'' \<mapsto> ''B''](''body'' \<mapsto> ''X'')
      = [''title'' \<mapsto> ''A'', ''body'' \<mapsto> ''X'']"
    by (auto simp: fun_eq_iff)
  show ?thesis
    using ex nex free held key blank before upd
      updateRecordField_frame[of 1 7 articleStore "''article''" "''body''" "''X''"]
      updateRecordField_frame[of 2 7 articleStore "''article''" "''body''" "''X''"]
      updateRecordField_frame[of 0 7 articleStore "''article''" "''body''" "''X''"]
      updateRecordField_frame[of 1 7 articleStore "''article''" "'' ''" "''X''"]
      updateRecordField_frame[of 1 7 "leftOpen articleStore" "''article''" "''body''" "''X''"]
    by simp
qed

text \<open>
  Claim C7 as the specification states it fails. For the id 0, which no record has, the
  error is \<open>record id is required\<close>, not \<open>record not found\<close>. For a blank bind key on
  a record that exists the call changes nothing and returns \<open>bind key is required\<close>.
  The call for the missing record 2 does not leave the store as it was: it leaves the
  write lock taken, and the next call, for record 1, which exists, changes no field and
  returns \<open>database is locked\<close>.
\<close>

theorem updateRecordField_frame_counterexample:
  "\<not> recordExists emptyStore 0 []
   \<and> snd (updateRecordField 7 emptyStore 0 [] ''body'' ''X'') = Some RecordIdRequired
   \<and> snd (updateRecordField 7 emptyStore 0 [] ''body'' ''X'') \<noteq> Some RecordNotFound
   \<and> recordExists articleStore 1 ''article''
   \<and> updateRecordField 7 articleStore 1 ''article'' '' '' ''X''
       = (articleStore, Some BindKeyRequired)
   \<and> \<not> recordExists articleStore 2 ''article''
   \<and> fst (updateRecordField 7 articleStore 2 ''article'' ''body'' ''X'') \<noteq> articleStore
   \<and> updateRecordField 8 (fst (updateRecordField 7 articleStore 2 ''article'' ''body'' ''X''))
        1 ''article'' ''body'' ''X''
       = (fst (updateRecordField 7 articleStore 2 ''article'' ''body'' ''X''),
          Some DatabaseLocked)"
  by code_simp

lemma fold_max_ge: "(s::int) \<le> fold max xs s"
  by (induction xs arbitrary: s) (auto intro: order_trans[OF max.cobounded2])

lemma fold_max_mem: "(x::int) \<in> set xs \<Longrightarrow> x \<le> fold max xs s"
proof (induction xs arbitrary: s)
  case Nil
  then show ?case by simp
next
  case (Cons y ys)
  show ?case
  proof (cases "x = y")
    case True
    have "x \<le> max y s" using True by simp
    also have "\<dots> \<le> fold max ys (max y s)" by (rule fold_max_ge)
    finally show ?thesis by simp
  next
    case False
    with Cons show ?thesis by simp
  qed
qed

lemma lastRowid_ge: "r \<in> set (records d) \<Longrightarrow> row_id r \<le> lastRowid d"
  unfolding lastRowid_def by (rule fold_max_mem) simp

lemma upsertFields_rows:
  "upsertFields tx rid vals = Inr tx' \<Longrightarrow>
   records tx' = records tx \<and> sequence tx' = sequence tx \<and> write_lock tx' = write_lock tx
   \<and> record_fields tx' = record_fields tx @ map (fieldRow rid) vals"
proof (induction vals arbitrary: tx)
  case Nil
  then show ?case by simp
next
  case (Cons kv vals)
  obtain k v where kv: "kv = (k, v)" by (cases kv)
  from Cons.prems kv obtain tx1 where ins: "exec_insert_field rid k v tx = Inr tx1"
    and rest: "upsertFields tx1 rid vals = Inr tx'"
    by (auto split: sum.splits)
  from ins have "records tx1 = records tx \<and> sequence tx1 = sequence tx
      \<and> write_lock tx1 = write_lock tx
      \<and> record_fields tx1 = record_fields tx @ [fieldRow rid (k, v)]"
    by (auto simp: exec_insert_field_def fieldRow_def split: if_splits)
  with Cons.IH[OF rest] kv show ?case by simp
qed

text \<open>
\<open>upsertFields\<close> fails exactly when a field row with the id and one of the keys exists.
\<close>

lemma upsertFields_collides:
  "distinct (map fst vals) \<Longrightarrow>
   \<exists>f\<in>set (record_fields tx). record_id f = rid \<and> bind_key f \<in> fst ` set vals \<Longrightarrow>
   upsertFields tx rid vals = Inl ConstraintFailed"
proof (induction vals arbitrary: tx)
  case Nil
  then show ?case by simp
next
  case (Cons kv vals)
  obtain k v where kv: "kv = (k, v)" by (cases kv)
  show ?case
  proof (cases "\<exists>f\<in>set (record_fields tx). record_id f = rid \<and> bind_key f = k")
    case True
    with kv show ?thesis by (simp add: exec_insert_field_def)
  next
    case False
    let ?tx = "tx\<lparr>record_fields := record_fields tx @ [fieldRow rid (k, v)]\<rparr>"
    have ins: "exec_insert_field rid k v tx = Inr ?tx"
      using False by (auto simp: exec_insert_field_def fieldRow_def)
    have "upsertFields ?tx rid vals = Inl ConstraintFailed"
    proof (rule Cons.IH)
      show "distinct (map fst vals)" using Cons.prems(1) by simp
      show "\<exists>f\<in>set (record_fields ?tx). record_id f = rid \<and> bind_key f \<in> fst ` set vals"
        using Cons.prems(2) False kv by auto
    qed
    with ins kv show ?thesis by simp
  qed
qed

text \<open>
The three outcomes of \<open>createRecord\<close> on a store whose write lock is free.
\<close>

lemma createRecord_result:
  assumes "\<not> write_lock d" and "lastRowid d < 2 ^ 63 - 1" and "distinct (map fst vals)"
    and "\<forall>f\<in>set (record_fields d). record_id f = lastRowid d + 1 \<longrightarrow> bind_key f \<notin> fst ` set vals"
  shows "createRecord now d contentType vals =
    (d\<lparr>records := records d @
          [\<lparr>row_id = lastRowid d + 1, row_type = contentType,
            created_at = now, updated_at = now\<rparr>],
       sequence := lastRowid d + 1,
       record_fields := record_fields d @ map (fieldRow (lastRowid d + 1)) vals\<rparr>,
     Inr (lastRowid d + 1))"
proof -
  let ?tx = "d\<lparr>records := records d @
          [\<lparr>row_id = lastRowid d + 1, row_type = contentType,
            created_at = now, updated_at = now\<rparr>],
       sequence := lastRowid d + 1\<rparr>"
  have ins: "exec_insert_record now contentType d = Inr (?tx, lastRowid d + 1)"
    using assms(2) by (simp add: exec_insert_record_def Let_def)
  have "upsertFields ?tx (lastRowid d + 1) vals =
      Inr (?tx\<lparr>record_fields := record_fields ?tx @ map (fieldRow (lastRowid d + 1)) vals\<rparr>)"
    by (rule upsertFields_fresh[OF assms(3)]) (use assms(4) in auto)
  with ins assms(1) show ?thesis by (simp add: createRecord_def)
qed

lemma createRecord_collides:
  assumes "\<not> write_lock d" and "lastRowid d < 2 ^ 63 - 1" and "distinct (map fst vals)"
    and "\<exists>f\<in>set (record_fields d). record_id f = lastRowid d + 1 \<and> bind_key f \<in> fst ` set vals"
  shows "createRecord now d contentType vals = (leftOpen d, Inl ConstraintFailed)"
proof -
  let ?tx = "d\<lparr>records := records d @
          [\<lparr>row_id = lastRowid d + 1, row_type = contentType,
            created_at = now, updated_at = now\<rparr>],
       sequence := lastRowid d + 1\<rparr>"
  have ins: "exec_insert_record now contentType d = Inr (?tx, lastRowid d + 1)"
    using assms(2) by (simp add: exec_insert_record_def Let_def)
  have "upsertFields ?tx (lastRowid d + 1) vals = Inl ConstraintFailed"
    by (rule upsertFields_collides[OF assms(3)]) (use assms(4) in auto)
  with ins assms(1) show ?thesis by (simp add: createRecord_def)
qed

lemma createRecord_refused:
  "write_lock d \<Longrightarrow> createRecord now d contentType vals = (d, Inl DatabaseLocked)"
  "\<not> write_lock d \<Longrightarrow> \<not> lastRowid d < 2 ^ 63 - 1 \<Longrightarrow>
   createRecord now d contentType vals = (d, Inl DatabaseFull)"
  by (simp_all add: createRecord_def exec_insert_record_def)

lemma defaultValues_fold:
  "distinct (map fst binds) \<Longrightarrow>
   map_of (fold (\<lambda>(bindKey, target) vals. AList.update bindKey (g target) vals) binds acc) k =
     (case map_of binds k of None \<Rightarrow> map_of acc k | Some target \<Rightarrow> Some (g target))"
proof (induction binds arbitrary: acc)
  case Nil
  then show ?case by simp
next
  case (Cons b binds)
  obtain k0 t0 where b: "b = (k0, t0)" by (cases b)
  from Cons.prems b have "map_of binds k0 = None"
    by (auto simp: map_of_eq_None_iff)
  with Cons b show ?case
    by (auto simp: update_conv' split: option.splits)
qed

lemma defaultValues_distinct_fold:
  "distinct (map fst acc) \<Longrightarrow>
   distinct (map fst (fold (\<lambda>(bindKey, target) vals. AList.update bindKey (g target) vals) binds acc))"
  by (induction binds arbitrary: acc) (auto simp: distinct_update)

lemma defaultValuesFromTemplate_distinct:
  "distinct (map fst (defaultValuesFromTemplate sprint template binds))"
  unfolding defaultValuesFromTemplate_def by (rule defaultValues_distinct_fold) simp

lemma defaultValuesFromTemplate_map_of:
  "distinct (map fst binds) \<Longrightarrow>
   map_of (defaultValuesFromTemplate sprint template binds) k =
     map_option (seedValue sprint template) (map_of binds k)"
  unfolding defaultValuesFromTemplate_def seedValue_def
  by (simp add: defaultValues_fold split: option.splits)

lemma defaultValuesFromTemplate_keys:
  assumes "distinct (map fst binds)"
  shows "fst ` set (defaultValuesFromTemplate sprint template binds) = fst ` set binds"
proof -
  have "dom (map_of (defaultValuesFromTemplate sprint template binds)) = dom (map_of binds)"
    by (auto simp: defaultValuesFromTemplate_map_of[OF assms] dom_def)
  then show ?thesis by (simp add: dom_map_of_conv_image_fst)
qed

lemma countRecords_zero:
  "(countRecords d contentType = 0) =
     (if strings_TrimSpace contentType = [] then records d = []
      else noRecordOfType d contentType)"
  by (auto simp: countRecords_def noRecordOfType_def list_ex_iff filter_empty_conv)

lemma countRecords_after_insert:
  "0 < countRecords (d\<lparr>records := records d @ [\<lparr>row_id = n, row_type = contentType,
        created_at = a, updated_at = b\<rparr>], sequence := s, record_fields := fs\<rparr>) contentType"
  by (simp add: countRecords_def)

lemma fetch_seeded:
  assumes "distinct (map fst binds)"
    and "\<forall>f\<in>set (record_fields d). record_id f = n \<longrightarrow> bind_key f \<notin> fst ` set binds"
  shows "fetchRecordFields
      (d\<lparr>records := rs, sequence := s,
         record_fields := record_fields d
           @ map (fieldRow n) (defaultValuesFromTemplate sprint template binds)\<rparr>) rid
    = (if rid = n
       then (\<lambda>k. case map_of binds k of
                    Some target \<Rightarrow> Some (seedValue sprint template target)
                  | None \<Rightarrow> fetchRecordFields d rid k)
       else fetchRecordFields d rid)"
proof (cases "rid = n")
  case True
  let ?vals = "defaultValuesFromTemplate sprint template binds"
  let ?old = "map (\<lambda>f. (bind_key f, field_value f)) (filter (\<lambda>f. record_id f = n) (record_fields d))"
  have new: "filter (\<lambda>f. record_id f = n) (map (fieldRow n) ?vals) = map (fieldRow n) ?vals"
    by (auto simp: fieldRow_def intro!: filter_True)
  have fetch: "fetchRecordFields
      (d\<lparr>records := rs, sequence := s,
         record_fields := record_fields d @ map (fieldRow n) ?vals\<rparr>) n
      = map_of (?old @ ?vals)"
    by (simp add: fetchRecordFields_map_of new pairs_fieldRow del: map_map)
  have none: "map_of ?old k = None" if "map_of binds k \<noteq> None" for k
  proof -
    from that have "k \<in> fst ` set binds" by (auto simp: map_of_eq_None_iff)
    with assms(2) show ?thesis by (force simp: map_of_eq_None_iff)
  qed
  have old: "fetchRecordFields d n = map_of ?old"
    by (simp add: fetchRecordFields_map_of)
  have "map_of (?old @ ?vals) k
      = (case map_of binds k of
           Some target \<Rightarrow> Some (seedValue sprint template target)
         | None \<Rightarrow> fetchRecordFields d n k)" for k
    unfolding old using none[of k]
    by (auto simp: map_add_def defaultValuesFromTemplate_map_of[OF assms(1)]
          split: option.splits)
  then show ?thesis
    unfolding True fetch by (simp add: fun_eq_iff)
next
  case False
  then have "filter (\<lambda>f. record_id f = rid)
      (map (fieldRow n) (defaultValuesFromTemplate sprint template binds)) = []"
    by (auto simp: filter_empty_conv fieldRow_def)
  with False show ?thesis
    by (simp add: fetchRecordFields_map_of)
qed

text \<open>
  Claim C8, as the code has it. When the store holds a record of the type (any record,
  when the type is blank), \<open>ensureSeed\<close> changes nothing. When it holds none,
  \<open>ensureSeed\<close> succeeds exactly when the write lock is free, an id is left and no field
  row already has the id of the new record with the key of a bind. When it succeeds it
  has added exactly one record, of that type, whose field under the key of each bind is
  the value the template holds at the path of the bind; the fields of every other record
  are as before; and a second call changes nothing. When it fails, no record row and no
  field row has changed. Two calls on a store that is empty, with its write lock free and
  an id left, leave exactly one record.
\<close>

theorem ensureSeed_seeds_once:
  assumes "distinct (map fst binds)"
  shows "(\<not> noneToCount d contentType \<longrightarrow>
      ensureSeed sprint now d template binds contentType = (d, None))
    \<and> (noneToCount d contentType \<longrightarrow>
      (snd (ensureSeed sprint now d template binds contentType) = None)
        = (\<not> write_lock d \<and> lastRowid d < 2 ^ 63 - 1
           \<and> (\<forall>f\<in>set (record_fields d).
                 record_id f = lastRowid d + 1 \<longrightarrow> bind_key f \<notin> fst ` set binds)))
    \<and> (noneToCount d contentType
        \<and> snd (ensureSeed sprint now d template binds contentType) = None \<longrightarrow>
      records (fst (ensureSeed sprint now d template binds contentType))
          = records d @ [\<lparr>row_id = lastRowid d + 1, row_type = contentType,
                           created_at = now, updated_at = now\<rparr>]
      \<and> (\<forall>rid. fetchRecordFields (fst (ensureSeed sprint now d template binds contentType)) rid
            = (if rid = lastRowid d + 1
               then (\<lambda>k. case map_of binds k of
                            Some target \<Rightarrow> Some (seedValue sprint template target)
                          | None \<Rightarrow> fetchRecordFields d rid k)
               else fetchRecordFields d rid))
      \<and> ensureSeed sprint now' (fst (ensureSeed sprint now d template binds contentType))
            template binds contentType
          = (fst (ensureSeed sprint now d template binds contentType), None))
    \<and> (noneToCount d contentType
        \<and> snd (ensureSeed sprint now d template binds contentType) \<noteq> None \<longrightarrow>
      records (fst (ensureSeed sprint now d template binds contentType)) = records d
      \<and> record_fields (fst (ensureSeed sprint now d template binds contentType))
          = record_fields d)
    \<and> (records d = [] \<and> record_fields d = [] \<and> \<not> write_lock d \<and> sequence d < 2 ^ 63 - 1 \<longrightarrow>
      length (records (fst (ensureSeed sprint now'
          (fst (ensureSeed sprint now d template binds contentType))
          template binds contentType))) = 1)"
proof -
  let ?res = "ensureSeed sprint now d template binds contentType"
  let ?vals = "defaultValuesFromTemplate sprint template binds"
  let ?n = "lastRowid d + 1"
  let ?ok = "\<not> write_lock d \<and> lastRowid d < 2 ^ 63 - 1
      \<and> (\<forall>f\<in>set (record_fields d). record_id f = ?n \<longrightarrow> bind_key f \<notin> fst ` set binds)"
  let ?d1 = "d\<lparr>records := records d @
          [\<lparr>row_id = ?n, row_type = contentType, created_at = now, updated_at = now\<rparr>],
       sequence := ?n,
       record_fields := record_fields d @ map (fieldRow ?n) ?vals\<rparr>"
  note keys = defaultValuesFromTemplate_keys[OF assms, of sprint template]
  have counted: "?res = (d, None)" if "\<not> noneToCount d contentType"
  proof -
    from that have "0 < countRecords d contentType"
      using countRecords_zero[of d contentType] by (simp add: noneToCount_def)
    then show ?thesis by (simp add: ensureSeed_def)
  qed
  have create: "?res = (case createRecord now d contentType ?vals of
             (d', Inl e) \<Rightarrow> (d', Some e)
           | (d', Inr recordID) \<Rightarrow> (d', None))"
    if "noneToCount d contentType"
  proof -
    from that have "countRecords d contentType = 0"
      using countRecords_zero[of d contentType] by (simp add: noneToCount_def)
    then show ?thesis by (simp add: ensureSeed_def createRecordFromTemplate_def)
  qed
  have seeded: "?res = (?d1, None)" if "noneToCount d contentType" and ok: "?ok"
  proof -
    have "createRecord now d contentType ?vals = (?d1, Inr ?n)"
      by (rule createRecord_result)
         (use ok keys defaultValuesFromTemplate_distinct in auto)
    with create[OF that(1)] show ?thesis by simp
  qed
  have failed: "snd ?res \<noteq> None \<and> records (fst ?res) = records d
      \<and> record_fields (fst ?res) = record_fields d"
    if none: "noneToCount d contentType" and no: "\<not> ?ok"
  proof (cases "write_lock d")
    case True
    with create[OF none] show ?thesis by (simp add: createRecord_refused(1))
  next
    case free: False
    show ?thesis
    proof (cases "lastRowid d < 2 ^ 63 - 1")
      case False
      with free create[OF none] show ?thesis by (simp add: createRecord_refused(2))
    next
      case True
      with free no have "\<exists>f\<in>set (record_fields d).
          record_id f = ?n \<and> bind_key f \<in> fst ` set ?vals"
        unfolding keys by blast
      from createRecord_collides[OF free True defaultValuesFromTemplate_distinct this]
        create[OF none]
      show ?thesis by (simp add: leftOpen_def)
    qed
  qed
  have iff: "(snd ?res = None) = ?ok" if "noneToCount d contentType"
  proof (cases "?ok")
    case True
    from seeded[OF that True] True show ?thesis by simp
  next
    case False
    from failed[OF that False] have "snd ?res \<noteq> None" by (rule conjunct1)
    with False show ?thesis by blast
  qed
  have success: "records (fst ?res)
          = records d @ [\<lparr>row_id = ?n, row_type = contentType,
                           created_at = now, updated_at = now\<rparr>]
      \<and> (\<forall>rid. fetchRecordFields (fst ?res) rid
            = (if rid = ?n
               then (\<lambda>k. case map_of binds k of
                            Some target \<Rightarrow> Some (seedValue sprint template target)
                          | None \<Rightarrow> fetchRecordFields d rid k)
               else fetchRecordFields d rid))
      \<and> ensureSeed sprint now' (fst ?res) template binds contentType = (fst ?res, None)"
    if "noneToCount d contentType \<and> snd ?res = None"
  proof -
    from that iff have ok: "?ok" by simp
    from that have res: "?res = (?d1, None)" using seeded[OF _ ok] by simp
    have "ensureSeed sprint now' ?d1 template binds contentType = (?d1, None)"
      using countRecords_after_insert by (simp add: ensureSeed_def)
    moreover have "\<forall>rid. fetchRecordFields ?d1 rid
            = (if rid = ?n
               then (\<lambda>k. case map_of binds k of
                            Some target \<Rightarrow> Some (seedValue sprint template target)
                          | None \<Rightarrow> fetchRecordFields d rid k)
               else fetchRecordFields d rid)"
      using fetch_seeded[OF assms, of d ?n] ok by blast
    ultimately show ?thesis by (simp add: res)
  qed
  have failure: "records (fst ?res) = records d \<and> record_fields (fst ?res) = record_fields d"
    if "noneToCount d contentType \<and> snd ?res \<noteq> None"
  proof -
    from that have none: "noneToCount d contentType" and err: "snd ?res \<noteq> None"
      by simp_all
    have "\<not> ?ok" using iff[OF none] err by blast
    from failed[OF none this] show ?thesis by (rule conjunct2)
  qed
  have twice: "length (records (fst (ensureSeed sprint now' (fst ?res)
          template binds contentType))) = 1"
    if empty: "records d = [] \<and> record_fields d = [] \<and> \<not> write_lock d \<and> sequence d < 2 ^ 63 - 1"
  proof -
    from empty have none: "noneToCount d contentType"
      by (simp add: noneToCount_def noRecordOfType_def)
    from empty have "?ok" by (simp add: lastRowid_def)
    with iff[OF none] have ok: "snd ?res = None" by simp
    from success none ok
    have "ensureSeed sprint now' (fst ?res) template binds contentType = (fst ?res, None)"
      and "records (fst ?res)
          = records d @ [\<lparr>row_id = ?n, row_type = contentType,
                           created_at = now, updated_at = now\<rparr>]"
      by simp_all
    with empty show ?thesis by simp
  qed
  from counted iff success failure twice show ?thesis by blast
qed

theorem ensureSeed_seeds_once_witness:
  "noneToCount emptyStore ''article''
   \<and> snd (ensureSeed stringOf 3 emptyStore plainTemplate
          (collectBinds latin1Lower plainTemplate [] []) ''article'') = None
   \<and> records (fst (ensureSeed stringOf 3 emptyStore plainTemplate
          (collectBinds latin1Lower plainTemplate [] []) ''article''))
       = [\<lparr>row_id = 1, row_type = ''article'', created_at = 3, updated_at = 3\<rparr>]
   \<and> fetchRecordFields (fst (ensureSeed stringOf 3 emptyStore plainTemplate
          (collectBinds latin1Lower plainTemplate [] []) ''article'')) 1 ''title''
       = Some ''Hello''
   \<and> ensureSeed stringOf 4 (fst (ensureSeed stringOf 3 emptyStore plainTemplate
          (collectBinds latin1Lower plainTemplate [] []) ''article'')) plainTemplate
          (collectBinds latin1Lower plainTemplate [] []) ''article''
       = (fst (ensureSeed stringOf 3 emptyStore plainTemplate
          (collectBinds latin1Lower plainTemplate [] []) ''article''), None)
   \<and> length (records (fst (ensureSeed stringOf 4 (fst (ensureSeed stringOf 3 emptyStore
          plainTemplate (collectBinds latin1Lower plainTemplate [] []) ''article''))
          plainTemplate (collectBinds latin1Lower plainTemplate [] []) ''article''))) = 1
   \<and> \<not> noneToCount articleStore ''article''
   \<and> ensureSeed stringOf 3 articleStore plainTemplate
          (collectBinds latin1Lower plainTemplate [] []) ''article'' = (articleStore, None)
   \<and> noneToCount orphanStore ''article''
   \<and> snd (ensureSeed stringOf 9 orphanStore plainTemplate
          (collectBinds latin1Lower plainTemplate [] []) ''article'') \<noteq> None
   \<and> records (fst (ensureSeed stringOf 9 orphanStore plainTemplate
          (collectBinds latin1Lower plainTemplate [] []) ''article'')) = records orphanStore"
proof -
  have binds: "collectBinds latin1Lower plainTemplate [] [] = [(''title'', ''10.value'')]"
    by code_simp
  have dist: "distinct (map fst [(''title'', ''10.value'')])" by simp
  have none: "noneToCount emptyStore ''article''" by code_simp
  have some: "\<not> noneToCount articleStore ''article''" by code_simp
  have orphan: "noneToCount orphanStore ''article''" by code_simp
  have empty: "records emptyStore = [] \<and> record_fields emptyStore = []
      \<and> \<not> write_lock emptyStore \<and> sequence emptyStore < 2 ^ 63 - 1
      \<and> lastRowid emptyStore = 0"
    by (simp add: emptyStore_def lastRowid_def)
  have fails: "snd (ensureSeed stringOf 9 orphanStore plainTemplate
          [(''title'', ''10.value'')] ''article'') \<noteq> None"
    by code_simp
  have at: "seedValue stringOf plainTemplate ''10.value'' = ''Hello''" by code_simp
  note seed = ensureSeed_seeds_once[OF dist, of emptyStore "''article''" stringOf 3
      plainTemplate 4]
  note kept = ensureSeed_seeds_once[OF dist, of articleStore "''article''" stringOf 3
      plainTemplate 4]
  note failed = ensureSeed_seeds_once[OF dist, of orphanStore "''article''" stringOf 9
      plainTemplate 4]
  let ?seeded = "ensureSeed stringOf 3 emptyStore plainTemplate
      [(''title'', ''10.value'')] ''article''"
  have ok: "snd ?seeded = None"
    using seed[THEN conjunct2, THEN conjunct1] none empty by simp
  have "records (fst ?seeded)
          = records emptyStore @ [\<lparr>row_id = lastRowid emptyStore + 1, row_type = ''article'',
                           created_at = 3, updated_at = 3\<rparr>]
      \<and> (\<forall>rid. fetchRecordFields (fst ?seeded) rid
            = (if rid = lastRowid emptyStore + 1
               then (\<lambda>k. case map_of [(''title'', ''10.value'')] k of
                            Some target \<Rightarrow> Some (seedValue stringOf plainTemplate target)
                          | None \<Rightarrow> fetchRecordFields emptyStore rid k)
               else fetchRecordFields emptyStore rid))
      \<and> ensureSeed stringOf 4 (fst ?seeded) plainTemplate [(''title'', ''10.value'')] ''article''
          = (fst ?seeded, None)"
    by (rule mp[OF seed[THEN conjunct2, THEN conjunct2, THEN conjunct1]]) (simp add: none ok)
  then have recs: "records (fst ?seeded)
        = [\<lparr>row_id = 1, row_type = ''article'', created_at = 3, updated_at = 3\<rparr>]"
    and fetch: "fetchRecordFields (fst ?seeded) 1 ''title'' = Some ''Hello''"
    and again: "ensureSeed stringOf 4 (fst ?seeded) plainTemplate
        [(''title'', ''10.value'')] ''article'' = (fst ?seeded, None)"
    using empty at by simp_all
  have twice: "length (records (fst (ensureSeed stringOf 4 (fst ?seeded) plainTemplate
        [(''title'', ''10.value'')] ''article''))) = 1"
    by (rule mp[OF seed[THEN conjunct2, THEN conjunct2, THEN conjunct2, THEN conjunct2]])
       (simp add: emptyStore_def)
  have same: "ensureSeed stringOf 3 articleStore plainTemplate
          [(''title'', ''10.value'')] ''article'' = (articleStore, None)"
    by (rule mp[OF kept[THEN conjunct1] some])
  have "records (fst (ensureSeed stringOf 9 orphanStore plainTemplate
          [(''title'', ''10.value'')] ''article'')) = records orphanStore
      \<and> record_fields (fst (ensureSeed stringOf 9 orphanStore plainTemplate
          [(''title'', ''10.value'')] ''article'')) = record_fields orphanStore"
    by (rule mp[OF failed[THEN conjunct2, THEN conjunct2, THEN conjunct2, THEN conjunct1]])
       (simp only: orphan fails simp_thms)
  then have unchanged: "records (fst (ensureSeed stringOf 9 orphanStore plainTemplate
          [(''title'', ''10.value'')] ''article'')) = records orphanStore"
    by (rule conjunct1)
  show ?thesis
    unfolding binds
    by (intro conjI none ok recs fetch again twice some same orphan fails unchanged)
qed

text \<open>
  Claim C8 as the specification states it fails. The store with one article holds no
  record of the type that is a single space, and \<open>ensureSeed\<close> for that type creates
  nothing: a blank type counts every record. The store \<open>orphanStore\<close> holds no record
  at all, and \<open>ensureSeed\<close> creates none: the insert of the field fails on the row that
  \<open>updateRecord\<close> has left for the id 2. The empty store on which
  \<open>updateRecordField\<close> has looked for a record holds no record either, and
  \<open>ensureSeed\<close> creates none: the write lock is taken.
\<close>

theorem ensureSeed_counterexample:
  "noRecordOfType articleStore '' ''
   \<and> ensureSeed stringOf 3 articleStore plainTemplate [(''title'', ''10.value'')] '' ''
       = (articleStore, None)
   \<and> records orphanStore = []
   \<and> record_fields orphanStore = [\<lparr>record_id = 2, bind_key = ''title'', field_value = ''C''\<rparr>]
   \<and> snd (ensureSeed stringOf 9 orphanStore plainTemplate [(''title'', ''10.value'')] ''article'')
       = Some ConstraintFailed
   \<and> records (fst (ensureSeed stringOf 9 orphanStore plainTemplate
        [(''title'', ''10.value'')] ''article'')) = []
   \<and> records (fst (updateRecordField 6 emptyStore 2 [] ''title'' ''C'')) = []
   \<and> record_fields (fst (updateRecordField 6 emptyStore 2 [] ''title'' ''C'')) = []
   \<and> snd (ensureSeed stringOf 9 (fst (updateRecordField 6 emptyStore 2 [] ''title'' ''C''))
        plainTemplate [(''title'', ''10.value'')] ''article'') = Some DatabaseLocked
   \<and> records (fst (ensureSeed stringOf 9
        (fst (updateRecordField 6 emptyStore 2 [] ''title'' ''C''))
        plainTemplate [(''title'', ''10.value'')] ''article'')) = []"
  by code_simp

text \<open>
  The empty store has its ids issued by the store, and every function that writes keeps
  the property.
\<close>

lemma idsIssued_rows:
  "sequence d' = sequence d \<Longrightarrow> map row_id (records d') = map row_id (records d)
   \<Longrightarrow> idsIssued d' = idsIssued d"
proof -
  assume s: "sequence d' = sequence d" and r: "map row_id (records d') = map row_id (records d)"
  have ids: "list_all (\<lambda>r. 0 < row_id r \<and> row_id r \<le> k) rs
      = (\<forall>i\<in>set (map row_id rs). 0 < i \<and> i \<le> k)" for rs k
    by (simp add: list_all_iff)
  show ?thesis unfolding idsIssued_def ids s r ..
qed

lemma lastRowid_nonneg: "idsIssued d \<Longrightarrow> 0 \<le> lastRowid d"
  unfolding lastRowid_def idsIssued_def
  by (auto intro: order_trans[OF _ fold_max_ge])

lemma touched_ids:
  "map row_id (map (\<lambda>r. if c r then r\<lparr>updated_at := now\<rparr> else r) rs) = map row_id rs"
  by (induction rs) auto

lemma emptyStore_idsIssued: "idsIssued emptyStore"
  by (simp add: idsIssued_def emptyStore_def)

lemma createRecord_idsIssued:
  assumes "idsIssued d"
  shows "idsIssued (fst (createRecord now d contentType vals))"
proof (cases "write_lock d \<or> \<not> lastRowid d < 2 ^ 63 - 1")
  case True
  with assms show ?thesis
    by (auto simp: createRecord_def exec_insert_record_def)
next
  case False
  let ?n = "lastRowid d + 1"
  let ?tx = "d\<lparr>records := records d @
          [\<lparr>row_id = ?n, row_type = contentType, created_at = now, updated_at = now\<rparr>],
       sequence := ?n\<rparr>"
  have ins: "exec_insert_record now contentType d = Inr (?tx, ?n)"
    using False by (simp add: exec_insert_record_def Let_def)
  have old: "0 < row_id r \<and> row_id r \<le> lastRowid d + 1" if "r \<in> set (records d)" for r
  proof -
    from assms that have "0 < row_id r" by (simp add: idsIssued_def list_all_iff)
    moreover from lastRowid_ge[OF that] have "row_id r \<le> lastRowid d + 1" by simp
    ultimately show ?thesis by simp
  qed
  have tx: "idsIssued ?tx"
    using old lastRowid_nonneg[OF assms] by (simp add: idsIssued_def list_all_iff)
  show ?thesis
  proof (cases "upsertFields ?tx ?n vals")
    case (Inl e)
    with ins False assms show ?thesis
      by (simp add: createRecord_def leftOpen_def idsIssued_def)
  next
    case (Inr tx')
    from upsertFields_rows[OF Inr] have "idsIssued tx' = idsIssued ?tx"
      by (intro idsIssued_rows) simp_all
    with tx ins False Inr show ?thesis by (simp add: createRecord_def)
  qed
qed

lemma updateRecord_idsIssued:
  assumes "idsIssued d"
  shows "idsIssued (fst (updateRecord now d recordID contentType vals))"
proof (cases "write_lock d")
  case True
  with assms show ?thesis by (simp add: updateRecord_locked)
next
  case False
  let ?tx = "exec_delete_fields recordID
      (fst (exec_touch_records now (matches recordID contentType) d))"
  have touch: "(if contentType \<noteq> []
        then fst (exec_touch_records now
                    (\<lambda>r. row_id r = recordID \<and> row_type r = contentType) d)
        else fst (exec_touch_records now (\<lambda>r. row_id r = recordID) d))
      = fst (exec_touch_records now (matches recordID contentType) d)"
    by (auto simp: matches_def exec_touch_records_def)
  have "idsIssued ?tx = idsIssued d"
    by (rule idsIssued_rows)
       (simp_all add: exec_delete_fields_def exec_touch_records_def touched_ids)
  with assms have tx: "idsIssued ?tx" by simp
  show ?thesis
  proof (cases "upsertFields ?tx recordID vals")
    case (Inl e)
    with False assms show ?thesis
      unfolding updateRecord_def touch by (simp add: Let_def leftOpen_def idsIssued_def)
  next
    case (Inr tx')
    from upsertFields_rows[OF Inr] have "idsIssued tx' = idsIssued ?tx"
      by (intro idsIssued_rows) simp_all
    with tx False Inr show ?thesis
      unfolding updateRecord_def touch by (simp add: Let_def)
  qed
qed

lemma updateRecordField_idsIssued:
  assumes "idsIssued d"
  shows "idsIssued (fst (updateRecordField now d recordID contentType bindKey v))"
proof -
  let ?d' = "fst (updateRecordField now d recordID contentType bindKey v)"
  consider (zero) "recordID = 0"
    | (blank) "recordID \<noteq> 0" "strings_TrimSpace bindKey = []"
    | (locked) "recordID \<noteq> 0" "strings_TrimSpace bindKey \<noteq> []" "write_lock d"
    | (missing) "recordID \<noteq> 0" "strings_TrimSpace bindKey \<noteq> []" "\<not> write_lock d"
        "\<not> recordExists d recordID contentType"
    | (found) "recordID \<noteq> 0" "strings_TrimSpace bindKey \<noteq> []" "\<not> write_lock d"
        "recordExists d recordID contentType"
    by blast
  then show ?thesis
  proof cases
    case zero
    with assms show ?thesis by (simp add: updateRecordField_def)
  next
    case blank
    with assms show ?thesis by (simp add: updateRecordField_def)
  next
    case locked
    with assms show ?thesis by (simp add: updateRecordField_locked)
  next
    case missing
    with assms show ?thesis
      by (simp add: updateRecordField_missing leftOpen_def idsIssued_def)
  next
    case found
    note rows = other_records_kept(2)[OF found(1,2,4,3), of now v]
    note seq = other_records_kept(3)[OF found(1,2,4,3), of now v]
    have "map row_id (records ?d')
        = map fst (map (\<lambda>r. (row_id r, row_type r, created_at r)) (records ?d'))"
      by (simp add: comp_def)
    also have "\<dots> = map fst (map (\<lambda>r. (row_id r, row_type r, created_at r)) (records d))"
      by (simp only: rows)
    also have "\<dots> = map row_id (records d)"
      by (simp add: comp_def)
    finally have "idsIssued ?d' = idsIssued d"
      by (rule idsIssued_rows[OF seq])
    with assms show ?thesis by simp
  qed
qed

lemma deleteRecord_idsIssued:
  assumes "idsIssued d"
  shows "idsIssued (fst (deleteRecord d recordID contentType))"
  using assms
  by (auto simp: deleteRecord_def Let_def exec_delete_fields_def exec_delete_records_def
        idsIssued_def list_all_iff)

section \<open>The inline-edit handler\<close>

text \<open>\<open>hasBoundaryPlugin\<close> finds a boundary exactly where \<open>boundaryWithin\<close> places one.\<close>

inductive_simps boundaryWithin_Map: "boundaryWithin tbl (Map m)"
inductive_simps boundaryWithin_IMap: "boundaryWithin tbl (IMap im)"
inductive_simps boundaryWithin_Seq: "boundaryWithin tbl (Seq xs)"
inductive_simps boundaryWithin_leaf:
  "boundaryWithin tbl GoNil" "boundaryWithin tbl (Str s)" "boundaryWithin tbl (Bool b)"
  "boundaryWithin tbl (GoInt i)" "boundaryWithin tbl (GoInt64 j)" "boundaryWithin tbl (Float64 x)"
  "boundaryWithin tbl (Other t)"

lemma hasBoundaryPlugin_iff:
  "hasBoundaryPlugin tbl n = boundaryWithin tbl n"
  "hasBoundaryPlugin_entries tbl m =
     (\<exists>k c. (k, c) \<in> set m \<and> \<not> strings_HasPrefix k ''@'' \<and> boundaryWithin tbl c)"
  "hasBoundaryPlugin_items tbl xs = (\<exists>c\<in>set xs. boundaryWithin tbl c)"
proof (induction tbl n and tbl m and tbl xs
    rule: hasBoundaryPlugin_hasBoundaryPlugin_entries_hasBoundaryPlugin_items.induct)
  case (1 tbl typed)
  then show ?case by (auto simp: boundaryWithin_Map)
next
  case (2 tbl typed)
  then show ?case by (simp add: boundaryWithin_IMap)
next
  case (3 tbl typed)
  then show ?case by (auto simp: boundaryWithin_Seq)
next
  case (12 tbl key child rest)
  then show ?case by (cases "strings_HasPrefix key ''@''") auto
next
  case (14 tbl child rest)
  then show ?case by auto
qed (simp_all add: boundaryWithin_leaf)

lemma inlineUploadValue_Inl:
  "inlineUploadValue d req cfg bindKey v errors = Inl r \<Longrightarrow>
   Handled r \<and> Store r = d \<and> (\<exists>body. Response r = Some \<lparr>Status = 400, Body = body\<rparr>)"
  by (auto simp: inlineUploadValue_def answered_def Let_def split: if_splits sum.splits)

lemma inlineUploadValue_plain:
  "\<not> strings_HasPrefix (ContentTypeHeader req) ''multipart/form-data'' \<Longrightarrow>
   inlineUploadValue d req cfg bindKey v errors = Inr v"
  by (simp add: inlineUploadValue_def)

text \<open>
  Claim C3, as the code has it. For an inline-edit POST (the payload parses and its
  inline flag is set), with \<open>errors\<close> as the parsing of the payload has left it:

  An empty bind key is answered with 400 \<open>bind is required\<close>, whether or not the
  template holds a boundary. A bind key that is not empty and not in the bind index is
  declined, with no response, the store unchanged, when the template holds a boundary
  at a position reached through entries whose keys do not start with \<open>@\<close> and through
  elements of lists; otherwise it is answered with 400 \<open>unknown bind\<close>, the store
  unchanged.

  A bind key in the index is always answered. Without a record id the answer is 400
  \<open>record_id is required\<close>, and when the upload block of a multipart request ends the
  call the answer is its 400; the store is unchanged in both cases. Otherwise the store
  after the call is the store after the one call of \<open>updateRecordField\<close> for the
  record, the bind key and the value (the value of the payload, when the request is not
  multipart): when that call succeeds the answer is 200 with
  \<open>{status: ok, record_id, bind, value}\<close>, and when it fails the answer is 500
  \<open>update failed\<close> and the error is appended to \<open>errors\<close>.
\<close>

theorem handleInlineUpdate_bind_lookup:
  assumes "Request ctx = Some req" and "Method req = ''POST''"
    and "parseInlinePayload req ctx cfg errors = (Inr payload, parsed)"
    and "parseBoolFlag tbl (Inline payload)"
    and "bindKey = strings_TrimSpace (Bind payload)"
    and "recordID =
      (if parseRecordID (strings_TrimSpace (RecordID payload)) = 0
       then resolveRecordID ctx (resolveRecordParam cfg)
       else parseRecordID (strings_TrimSpace (RecordID payload)))"
    and "result = handleInlineUpdate tbl now ctx d contentType binds cfg template errors"
  shows "(bindKey = [] \<longrightarrow>
      result = \<lparr>Handled = True,
                Response = Some \<lparr>Status = 400, Body = [(''error'', ''bind is required'')]\<rparr>,
                Store = d, Errors = parsed\<rparr>)
    \<and> (bindKey \<noteq> [] \<and> map_of binds bindKey = None \<and> boundaryWithin tbl (Map template) \<longrightarrow>
      result = \<lparr>Handled = False, Response = None, Store = d, Errors = parsed\<rparr>)
    \<and> (bindKey \<noteq> [] \<and> map_of binds bindKey = None \<and> \<not> boundaryWithin tbl (Map template) \<longrightarrow>
      result = \<lparr>Handled = True,
                Response = Some \<lparr>Status = 400, Body = [(''error'', ''unknown bind'')]\<rparr>,
                Store = d, Errors = parsed\<rparr>)
    \<and> (bindKey \<noteq> [] \<and> map_of binds bindKey \<noteq> None \<and> recordID = 0 \<longrightarrow>
      result = \<lparr>Handled = True,
                Response = Some \<lparr>Status = 400,
                                 Body = [(''error'', ''record_id is required'')]\<rparr>,
                Store = d, Errors = parsed\<rparr>)
    \<and> (bindKey \<noteq> [] \<and> map_of binds bindKey \<noteq> None \<and> recordID \<noteq> 0 \<longrightarrow>
      (\<forall>r. inlineUploadValue d req cfg bindKey (Value payload) parsed = Inl r \<longrightarrow>
         result = r \<and> Handled r \<and> Store r = d
         \<and> (\<exists>body. Response r = Some \<lparr>Status = 400, Body = body\<rparr>))
      \<and> (\<forall>v. inlineUploadValue d req cfg bindKey (Value payload) parsed = Inr v \<longrightarrow>
         Handled result
         \<and> Store result = fst (updateRecordField now d recordID contentType bindKey v)
         \<and> (snd (updateRecordField now d recordID contentType bindKey v) = None \<longrightarrow>
              Response result
                = Some \<lparr>Status = 200,
                         Body = [(''status'', ''ok''),
                                 (''record_id'', strconv_FormatInt recordID),
                                 (''bind'', bindKey), (''value'', v)]\<rparr>
              \<and> Errors result = parsed)
         \<and> (\<forall>e. snd (updateRecordField now d recordID contentType bindKey v) = Some e \<longrightarrow>
              Response result
                = Some \<lparr>Status = 500, Body = [(''error'', ''update failed'')]\<rparr>
              \<and> Errors result = appendError parsed ''inline update failed'' e))
      \<and> (\<not> strings_HasPrefix (ContentTypeHeader req) ''multipart/form-data'' \<longrightarrow>
         inlineUploadValue d req cfg bindKey (Value payload) parsed = Inr (Value payload)))"
proof -
  let ?bk = "strings_TrimSpace (Bind payload)"
  let ?res = "handleInlineUpdate tbl now ctx d contentType binds cfg template errors"
  let ?rid0 = "parseRecordID (strings_TrimSpace (RecordID payload))"
  let ?rid = "if ?rid0 = 0 then resolveRecordID ctx (resolveRecordParam cfg) else ?rid0"
  let ?up = "inlineUploadValue d req cfg ?bk (Value payload) parsed"
  have core: "?res =
      (if ?bk = [] then answered d 400 [(''error'', ''bind is required'')] parsed
       else if map_of binds ?bk = None then
         (if hasBoundaryPlugin tbl (Map template) then declined d parsed
          else answered d 400 [(''error'', ''unknown bind'')] parsed)
       else if ?rid = 0 then answered d 400 [(''error'', ''record_id is required'')] parsed
       else (case ?up of
               Inl r \<Rightarrow> r
             | Inr v \<Rightarrow>
                 (case updateRecordField now d ?rid contentType ?bk v of
                    (d', Some e) \<Rightarrow>
                      answered d' 500 [(''error'', ''update failed'')]
                        (appendError parsed ''inline update failed'' e)
                  | (d', None) \<Rightarrow>
                      answered d' 200
                        [(''status'', ''ok''), (''record_id'', strconv_FormatInt ?rid),
                         (''bind'', ?bk), (''value'', v)] parsed)))"
    unfolding handleInlineUpdate_def using assms(1-4) by (simp add: Let_def)
  have blank: "?res = \<lparr>Handled = True,
                Response = Some \<lparr>Status = 400, Body = [(''error'', ''bind is required'')]\<rparr>,
                Store = d, Errors = parsed\<rparr>"
    if "?bk = []"
    using that by (simp add: core answered_def)
  have nested: "?res = \<lparr>Handled = False, Response = None, Store = d, Errors = parsed\<rparr>"
    if "?bk \<noteq> [] \<and> map_of binds ?bk = None \<and> boundaryWithin tbl (Map template)"
    using that by (simp add: core declined_def hasBoundaryPlugin_iff(1))
  have unknown: "?res = \<lparr>Handled = True,
                Response = Some \<lparr>Status = 400, Body = [(''error'', ''unknown bind'')]\<rparr>,
                Store = d, Errors = parsed\<rparr>"
    if "?bk \<noteq> [] \<and> map_of binds ?bk = None \<and> \<not> boundaryWithin tbl (Map template)"
    using that by (simp add: core answered_def hasBoundaryPlugin_iff(1))
  have norecord: "?res = \<lparr>Handled = True,
                Response = Some \<lparr>Status = 400,
                                 Body = [(''error'', ''record_id is required'')]\<rparr>,
                Store = d, Errors = parsed\<rparr>"
    if "?bk \<noteq> [] \<and> map_of binds ?bk \<noteq> None \<and> ?rid = 0"
  proof -
    from that obtain target where "map_of binds ?bk = Some target" by auto
    with that show ?thesis by (simp add: core answered_def)
  qed
  have rest: "?res = (case ?up of
               Inl r \<Rightarrow> r
             | Inr v \<Rightarrow>
                 (case updateRecordField now d ?rid contentType ?bk v of
                    (d', Some e) \<Rightarrow>
                      answered d' 500 [(''error'', ''update failed'')]
                        (appendError parsed ''inline update failed'' e)
                  | (d', None) \<Rightarrow>
                      answered d' 200
                        [(''status'', ''ok''), (''record_id'', strconv_FormatInt ?rid),
                         (''bind'', ?bk), (''value'', v)] parsed))"
    if known: "?bk \<noteq> [] \<and> map_of binds ?bk \<noteq> None \<and> ?rid \<noteq> 0"
  proof -
    from known obtain target where bk: "?bk \<noteq> []" and target: "map_of binds ?bk = Some target"
      and rid: "?rid \<noteq> 0"
      by auto
    show ?thesis
      by (subst core) (simp only: bk target rid if_False option.distinct)
  qed
  have refused: "?res = r \<and> Handled r \<and> Store r = d
         \<and> (\<exists>body. Response r = Some \<lparr>Status = 400, Body = body\<rparr>)"
    if "?bk \<noteq> [] \<and> map_of binds ?bk \<noteq> None \<and> ?rid \<noteq> 0" and up: "?up = Inl r" for r
    using rest[OF that(1)] inlineUploadValue_Inl[OF up] by (simp add: up)
  have updated: "Handled ?res
         \<and> Store ?res = fst (updateRecordField now d ?rid contentType ?bk v)
         \<and> (snd (updateRecordField now d ?rid contentType ?bk v) = None \<longrightarrow>
              Response ?res
                = Some \<lparr>Status = 200,
                         Body = [(''status'', ''ok''),
                                 (''record_id'', strconv_FormatInt ?rid),
                                 (''bind'', ?bk), (''value'', v)]\<rparr>
              \<and> Errors ?res = parsed)
         \<and> (\<forall>e. snd (updateRecordField now d ?rid contentType ?bk v) = Some e \<longrightarrow>
              Response ?res
                = Some \<lparr>Status = 500, Body = [(''error'', ''update failed'')]\<rparr>
              \<and> Errors ?res = appendError parsed ''inline update failed'' e)"
    if "?bk \<noteq> [] \<and> map_of binds ?bk \<noteq> None \<and> ?rid \<noteq> 0" and up: "?up = Inr v" for v
  proof -
    obtain d' e where upd: "updateRecordField now d ?rid contentType ?bk v = (d', e)"
      by (cases "updateRecordField now d ?rid contentType ?bk v")
    show ?thesis
      using rest[OF that(1)] by (cases e) (simp_all add: up upd answered_def)
  qed
  have plain: "?up = Inr (Value payload)"
    if "\<not> strings_HasPrefix (ContentTypeHeader req) ''multipart/form-data''"
    using that by (rule inlineUploadValue_plain)
  from blank nested unknown norecord refused updated plain show ?thesis
    unfolding assms(5,6,7) by blast
qed

lemma jsonPost_request: "Request (jsonPost body) = Some (jsonRequest body)"
  by (simp add: jsonPost_def)

lemma jsonRequest_method: "Method (jsonRequest body) = ''POST''"
  by (simp add: jsonRequest_def)

lemma jsonRequest_plain:
  "\<not> strings_HasPrefix (ContentTypeHeader (jsonRequest body)) ''multipart/form-data''"
  by (simp add: jsonRequest_def strings_HasPrefix_def)

theorem handleInlineUpdate_bind_lookup_witness:
  "boundaryWithin latin1Lower (Map nestedTemplate)
   \<and> handleInlineUpdate latin1Lower 7 (jsonPost (inlineBody ''1'' ''subtitle'' ''Hi''))
        articleStore ''article'' (collectBinds latin1Lower nestedTemplate [] []) noConfig
        nestedTemplate (Some [])
       = \<lparr>Handled = False, Response = None, Store = articleStore, Errors = Some []\<rparr>
   \<and> \<not> boundaryWithin latin1Lower (Map plainTemplate)
   \<and> handleInlineUpdate latin1Lower 7 (jsonPost (inlineBody ''1'' ''subtitle'' ''Hi''))
        articleStore ''article'' (collectBinds latin1Lower plainTemplate [] []) noConfig
        plainTemplate (Some [])
       = \<lparr>Handled = True,
          Response = Some \<lparr>Status = 400, Body = [(''error'', ''unknown bind'')]\<rparr>,
          Store = articleStore, Errors = Some []\<rparr>
   \<and> handleInlineUpdate latin1Lower 7 (jsonPost (inlineBody ''1'' '' '' ''Hi''))
        articleStore ''article'' (collectBinds latin1Lower plainTemplate [] []) noConfig
        plainTemplate (Some [])
       = \<lparr>Handled = True,
          Response = Some \<lparr>Status = 400, Body = [(''error'', ''bind is required'')]\<rparr>,
          Store = articleStore, Errors = Some []\<rparr>
   \<and> handleInlineUpdate latin1Lower 7 (jsonPost (inlineBody [] ''title'' ''Hi''))
        articleStore ''article'' (collectBinds latin1Lower plainTemplate [] []) noConfig
        plainTemplate (Some [])
       = \<lparr>Handled = True,
          Response = Some \<lparr>Status = 400, Body = [(''error'', ''record_id is required'')]\<rparr>,
          Store = articleStore, Errors = Some []\<rparr>
   \<and> Store (handleInlineUpdate latin1Lower 7 (jsonPost (inlineBody ''1'' ''title'' ''Hi''))
        articleStore ''article'' (collectBinds latin1Lower plainTemplate [] []) noConfig
        plainTemplate (Some []))
       = fst (updateRecordField 7 articleStore 1 ''article'' ''title'' ''Hi'')
   \<and> fetchRecordFields (fst (updateRecordField 7 articleStore 1 ''article'' ''title'' ''Hi'')) 1
        ''title'' = Some ''Hi''
   \<and> Response (handleInlineUpdate latin1Lower 7 (jsonPost (inlineBody ''1'' ''title'' ''Hi''))
        articleStore ''article'' (collectBinds latin1Lower plainTemplate [] []) noConfig
        plainTemplate (Some []))
       = Some \<lparr>Status = 200, Body = [(''status'', ''ok''), (''record_id'', ''1''),
                                       (''bind'', ''title''), (''value'', ''Hi'')]\<rparr>
   \<and> Response (handleInlineUpdate latin1Lower 7 (jsonPost (inlineBody ''2'' ''title'' ''Hi''))
        articleStore ''article'' (collectBinds latin1Lower plainTemplate [] []) noConfig
        plainTemplate (Some []))
       = Some \<lparr>Status = 500, Body = [(''error'', ''update failed'')]\<rparr>
   \<and> Errors (handleInlineUpdate latin1Lower 7 (jsonPost (inlineBody ''2'' ''title'' ''Hi''))
        articleStore ''article'' (collectBinds latin1Lower plainTemplate [] []) noConfig
        plainTemplate (Some []))
       = Some [(''inline update failed'', RecordNotFound)]"
proof -
  let ?nested = "collectBinds latin1Lower nestedTemplate [] []"
  let ?plain = "collectBinds latin1Lower plainTemplate [] []"
  let ?payload = "\<lambda>recordID bind. \<lparr>Inline = ''1'', RecordID = recordID, Bind = bind, Value = ''Hi''\<rparr>"
  have one: "strings_TrimSpace ''1'' = ''1''" by code_simp
  have parse: "parseInlinePayload (jsonRequest (inlineBody recordID bind ''Hi''))
        (jsonPost (inlineBody recordID bind ''Hi'')) noConfig (Some [])
      = (Inr (?payload (strings_TrimSpace recordID) (strings_TrimSpace bind)), Some [])"
    for recordID bind
    by (simp add: parseInlinePayload_def jsonRequest_def inlineBody_def strings_HasPrefix_def
          TrimSpace_empty Let_def one)
  have flag: "parseBoolFlag latin1Lower (Inline (?payload recordID bind))" for recordID bind
    by (simp add: parseBoolFlag_def) code_simp
  have trim: "strings_TrimSpace ''subtitle'' = ''subtitle''" "strings_TrimSpace ''title'' = ''title''"
    "strings_TrimSpace '' '' = []" "strings_TrimSpace ''1'' = ''1''" "strings_TrimSpace ''2'' = ''2''"
    by code_simp+
  have ids: "parseRecordID ''1'' = 1" "parseRecordID ''2'' = 2" "parseRecordID [] = 0"
    "resolveRecordID (jsonPost body) (resolveRecordParam noConfig) = 0" for body
    by (code_simp, code_simp, code_simp)
       (simp add: resolveRecordID_def jsonPost_def parseRecordID_def TrimSpace_empty Let_def)
  have nested: "boundaryWithin latin1Lower (Map nestedTemplate)"
    unfolding hasBoundaryPlugin_iff(1)[symmetric] by code_simp
  have plain: "\<not> boundaryWithin latin1Lower (Map plainTemplate)"
    unfolding hasBoundaryPlugin_iff(1)[symmetric] by code_simp
  have unknown: "map_of ?nested ''subtitle'' = None" "map_of ?plain ''subtitle'' = None"
    by code_simp+
  have known: "map_of ?plain ''title'' \<noteq> None" by code_simp
  have ok: "snd (updateRecordField 7 articleStore 1 ''article'' ''title'' ''Hi'') = None"
    and missing: "snd (updateRecordField 7 articleStore 2 ''article'' ''title'' ''Hi'')
      = Some RecordNotFound"
    and fetched: "fetchRecordFields (fst (updateRecordField 7 articleStore 1 ''article''
      ''title'' ''Hi'')) 1 ''title'' = Some ''Hi''"
    and printed: "strconv_FormatInt 1 = ''1''"
    by code_simp+
  note t = handleInlineUpdate_bind_lookup[OF jsonPost_request jsonRequest_method parse flag
      refl refl refl, of _ _ 7 articleStore "''article''"]
  note up = inlineUploadValue_plain[OF jsonRequest_plain]
  have 1: "handleInlineUpdate latin1Lower 7 (jsonPost (inlineBody ''1'' ''subtitle'' ''Hi''))
        articleStore ''article'' ?nested noConfig nestedTemplate (Some [])
       = \<lparr>Handled = False, Response = None, Store = articleStore, Errors = Some []\<rparr>"
    by (rule mp[OF t[THEN conjunct2, THEN conjunct1]]) (simp add: trim unknown nested)
  have 2: "handleInlineUpdate latin1Lower 7 (jsonPost (inlineBody ''1'' ''subtitle'' ''Hi''))
        articleStore ''article'' ?plain noConfig plainTemplate (Some [])
       = \<lparr>Handled = True,
          Response = Some \<lparr>Status = 400, Body = [(''error'', ''unknown bind'')]\<rparr>,
          Store = articleStore, Errors = Some []\<rparr>"
    by (rule mp[OF t[THEN conjunct2, THEN conjunct2, THEN conjunct1]])
       (simp add: trim unknown plain)
  have 3: "handleInlineUpdate latin1Lower 7 (jsonPost (inlineBody ''1'' '' '' ''Hi''))
        articleStore ''article'' ?plain noConfig plainTemplate (Some [])
       = \<lparr>Handled = True,
          Response = Some \<lparr>Status = 400, Body = [(''error'', ''bind is required'')]\<rparr>,
          Store = articleStore, Errors = Some []\<rparr>"
    by (rule mp[OF t[THEN conjunct1]]) (simp add: trim TrimSpace_empty)
  have 4: "handleInlineUpdate latin1Lower 7 (jsonPost (inlineBody [] ''title'' ''Hi''))
        articleStore ''article'' ?plain noConfig plainTemplate (Some [])
       = \<lparr>Handled = True,
          Response = Some \<lparr>Status = 400, Body = [(''error'', ''record_id is required'')]\<rparr>,
          Store = articleStore, Errors = Some []\<rparr>"
    by (rule mp[OF t[THEN conjunct2, THEN conjunct2, THEN conjunct2, THEN conjunct1]])
       (simp add: trim TrimSpace_empty known ids)
  note k1 = t[of "''1''" "''title''" ?plain plainTemplate,
      THEN conjunct2, THEN conjunct2, THEN conjunct2, THEN conjunct2, THEN mp,
      THEN conjunct2, THEN conjunct1, THEN spec, THEN mp, OF _ up]
  note k2 = t[of "''2''" "''title''" ?plain plainTemplate,
      THEN conjunct2, THEN conjunct2, THEN conjunct2, THEN conjunct2, THEN mp,
      THEN conjunct2, THEN conjunct1, THEN spec, THEN mp, OF _ up]
  have 5: "Store (handleInlineUpdate latin1Lower 7 (jsonPost (inlineBody ''1'' ''title'' ''Hi''))
        articleStore ''article'' ?plain noConfig plainTemplate (Some []))
       = fst (updateRecordField 7 articleStore 1 ''article'' ''title'' ''Hi'')"
    and 6: "Response (handleInlineUpdate latin1Lower 7
        (jsonPost (inlineBody ''1'' ''title'' ''Hi''))
        articleStore ''article'' ?plain noConfig plainTemplate (Some []))
       = Some \<lparr>Status = 200, Body = [(''status'', ''ok''), (''record_id'', ''1''),
                                       (''bind'', ''title''), (''value'', ''Hi'')]\<rparr>"
    using k1 ok printed by (simp_all add: trim known ids)
  have 7: "Response (handleInlineUpdate latin1Lower 7
        (jsonPost (inlineBody ''2'' ''title'' ''Hi''))
        articleStore ''article'' ?plain noConfig plainTemplate (Some []))
       = Some \<lparr>Status = 500, Body = [(''error'', ''update failed'')]\<rparr>"
    and 8: "Errors (handleInlineUpdate latin1Lower 7
        (jsonPost (inlineBody ''2'' ''title'' ''Hi''))
        articleStore ''article'' ?plain noConfig plainTemplate (Some []))
       = Some [(''inline update failed'', RecordNotFound)]"
    using k2 missing by (simp_all add: trim known ids appendError_def)
  show ?thesis
    by (intro conjI nested plain 1 2 3 4 5 6 7 8 fetched)
qed

text \<open>
A form body that does not parse is logged by \<open>parseRequestForm\<close>, and the handler goes
on with the fields the context holds.
\<close>

lemma handleInlineUpdate_form_error:
  "handleInlineUpdate latin1Lower 7 (formPost (inlineBody ''1'' ''title'' ''Hi'')) articleStore
     ''article'' (collectBinds latin1Lower plainTemplate [] []) noConfig plainTemplate (Some [])
   = \<lparr>Handled = True,
      Response = Some \<lparr>Status = 200, Body = [(''status'', ''ok''), (''record_id'', ''1''),
                                              (''bind'', ''title''), (''value'', ''Hi'')]\<rparr>,
      Store = fst (updateRecordField 7 articleStore 1 ''article'' ''title'' ''Hi''),
      Errors = Some [(''parse form failed'', FormInvalid)]\<rparr>"
  by code_simp

text \<open>
  Claim C3 as the specification states it fails. The empty bind key is in no bind
  index and the template holds the plugin node, a boundary, under the key \<open>20\<close>: the
  request is answered with 400 instead of being declined. And the bind key
  \<open>subtitle\<close> is in no bind index of the template that holds the same plugin node
  under the key \<open>@preview\<close>: the request is answered with 400 \<open>unknown bind\<close> instead
  of being declined, because the search for a boundary skips the keys that start with
  \<open>@\<close>.
\<close>

theorem handleInlineUpdate_counterexample:
  "isBoundaryPlugin latin1Lower pluginNode
   \<and> map_of nestedTemplate ''20'' = Some (Map pluginNode)
   \<and> map_of (collectBinds latin1Lower nestedTemplate [] []) [] = None
   \<and> handleInlineUpdate latin1Lower 7 (jsonPost (inlineBody ''1'' [] ''Hi'')) articleStore
        ''article'' (collectBinds latin1Lower nestedTemplate [] []) noConfig nestedTemplate
        (Some [])
      = \<lparr>Handled = True,
         Response = Some \<lparr>Status = 400, Body = [(''error'', ''bind is required'')]\<rparr>,
         Store = articleStore, Errors = Some []\<rparr>
   \<and> map_of metaTemplate ''@preview'' = Some (Map pluginNode)
   \<and> map_of (collectBinds latin1Lower metaTemplate [] []) ''subtitle'' = None
   \<and> handleInlineUpdate latin1Lower 7 (jsonPost (inlineBody ''1'' ''subtitle'' ''Hi''))
        articleStore ''article'' (collectBinds latin1Lower metaTemplate [] []) noConfig
        metaTemplate (Some [])
      = \<lparr>Handled = True,
         Response = Some \<lparr>Status = 400, Body = [(''error'', ''unknown bind'')]\<rparr>,
         Store = articleStore, Errors = Some []\<rparr>"
  by code_simp

section \<open>The bind index\<close>

lemma collectBinds_keys_mono:
  "fst ` set binds \<subseteq> fst ` set (collectBinds tbl node path binds)"
  "fst ` set binds \<subseteq> fst ` set (collectBinds_range tbl kvs path binds)"
proof (induction tbl node path binds and tbl kvs path binds
    rule: collectBinds_collectBinds_range.induct)
  case (1 tbl node path binds)
  let ?binds1 = "(case bindDecl node of
          Some (field, bindPath) \<Rightarrow>
            if map_of binds field = None then binds @ [(field, joinPath path bindPath)]
            else binds
        | None \<Rightarrow> binds)"
  have b1: "fst ` set binds \<subseteq> fst ` set ?binds1"
    by (auto split: option.splits)
  show ?case
  proof (cases "isBoundaryPlugin tbl node")
    case True
    with b1 show ?thesis by (simp add: collectBinds.simps)
  next
    case False
    with "1.IH"[OF refl False] b1 show ?thesis
      by (auto simp: collectBinds.simps Let_def)
  qed
next
  case (2 tbl path binds)
  then show ?case by simp
next
  case (3 tbl key v rest path binds)
  show ?case
  proof (cases "strings_HasPrefix key ''@''")
    case True
    with 3 show ?thesis by simp
  next
    case False
    with 3 show ?thesis
      by (cases v) (auto simp: subset_iff)
  qed
qed

lemma collectBinds_keeps: "f \<in> fst ` set binds \<Longrightarrow> f \<in> fst ` set (collectBinds tbl node path binds)"
  using collectBinds_keys_mono(1) by blast

lemma collectBinds_range_keeps:
  "f \<in> fst ` set binds \<Longrightarrow> f \<in> fst ` set (collectBinds_range tbl kvs path binds)"
  using collectBinds_keys_mono(2) by blast

text \<open>
The bind of the node itself is in the index once \<open>collectBinds\<close> has seen the node.
\<close>

lemma collectBinds_own:
  assumes "bindDecl node = Some (f, q)"
  shows "f \<in> fst ` set (collectBinds tbl node path binds)"
proof -
  let ?binds1 = "if map_of binds f = None then binds @ [(f, joinPath path q)] else binds"
  have own: "f \<in> fst ` set ?binds1"
    by (auto simp: map_of_eq_None_iff)
  show ?thesis
  proof (cases "isBoundaryPlugin tbl node")
    case True
    with assms own show ?thesis by (simp add: collectBinds.simps)
  next
    case False
    with assms collectBinds_range_keeps[OF own, of tbl node path] show ?thesis
      by (simp add: collectBinds.simps)
  qed
qed

lemma collectBinds_range_child:
  assumes "(k, c) \<in> set kvs" and "\<not> strings_HasPrefix k ''@''"
    and "c = Map m \<and> m' = m \<or> c = IMap im \<and> m' = normalizeInterfaceMap im"
    and "\<And>path binds. f \<in> fst ` set (collectBinds tbl m' path binds)"
  shows "f \<in> fst ` set (collectBinds_range tbl kvs path binds)"
  using assms(1)
proof (induction kvs arbitrary: binds)
  case Nil
  then show ?case by simp
next
  case (Cons kv kvs)
  obtain k' c' where kv: "kv = (k', c')" by (cases kv)
  show ?case
  proof (cases "(k, c) = kv")
    case True
    with kv assms(2,3,4) show ?thesis
      by (auto intro!: collectBinds_range_keeps)
  next
    case False
    with Cons have "\<And>binds. f \<in> fst ` set (collectBinds_range tbl kvs path binds)" by simp
    with kv show ?thesis
      by (cases c') auto
  qed
qed

lemma collectBinds_complete:
  "walked tbl node n \<Longrightarrow> bindDecl n = Some (f, q) \<Longrightarrow>
   f \<in> fst ` set (collectBinds tbl node path binds)"
proof (induction arbitrary: path binds rule: walked.induct)
  case (start m)
  then show ?case by (rule collectBinds_own)
next
  case (child m k c n)
  have "f \<in> fst ` set (collectBinds_range tbl m path binds')" for binds'
    by (rule collectBinds_range_child[where m' = c and c = "Map c" and m = c, OF child.hyps(2,3)])
       (use child.IH child.prems in auto)
  with child.hyps(1) show ?case
    by (simp add: collectBinds.simps Let_def)
next
  case (ichild m k c n)
  have "f \<in> fst ` set (collectBinds_range tbl m path binds')" for binds'
    by (rule collectBinds_range_child[where m' = "normalizeInterfaceMap c" and c = "IMap c"
          and im = c, OF ichild.hyps(2,3)])
       (use ichild.IH ichild.prems in auto)
  with ichild.hyps(1) show ?case
    by (simp add: collectBinds.simps Let_def)
qed

lemma childWalked_Cons:
  "childWalked tbl rest n \<Longrightarrow> childWalked tbl (kv # rest) n"
  by (auto simp: childWalked_def)

lemma childWalked_walked:
  "\<not> isBoundaryPlugin tbl m \<Longrightarrow> childWalked tbl m n \<Longrightarrow> walked tbl m n"
  by (auto simp: childWalked_def intro: walked.child walked.ichild)

text \<open>
Every field of the index is declared by a node that the walk has reached.
\<close>

lemma collectBinds_sound:
  "f \<in> fst ` set (collectBinds tbl node path binds) \<Longrightarrow>
     f \<in> fst ` set binds \<or> (\<exists>n q. walked tbl node n \<and> bindDecl n = Some (f, q))"
  "f \<in> fst ` set (collectBinds_range tbl kvs path binds) \<Longrightarrow>
     f \<in> fst ` set binds \<or> (\<exists>n q. childWalked tbl kvs n \<and> bindDecl n = Some (f, q))"
proof (induction tbl node path binds and tbl kvs path binds
    rule: collectBinds_collectBinds_range.induct)
  case (1 tbl node path binds)
  let ?binds1 = "(case bindDecl node of
          Some (field, bindPath) \<Rightarrow>
            if map_of binds field = None then binds @ [(field, joinPath path bindPath)]
            else binds
        | None \<Rightarrow> binds)"
  have own: "f \<in> fst ` set binds \<or> (\<exists>q. bindDecl node = Some (f, q))"
    if "f \<in> fst ` set ?binds1"
    using that by (auto split: option.splits if_splits)
  show ?case
  proof (cases "isBoundaryPlugin tbl node")
    case True
    with "1.prems" have "f \<in> fst ` set ?binds1" by (simp add: collectBinds.simps)
    from own[OF this] show ?thesis by (auto intro: walked.start)
  next
    case False
    with "1.prems" have "f \<in> fst ` set (collectBinds_range tbl node path ?binds1)"
      by (simp add: collectBinds.simps Let_def)
    from "1.IH"[OF refl False this]
    show ?thesis
    proof
      assume "f \<in> fst ` set ?binds1"
      from own[OF this] show ?thesis by (auto intro: walked.start)
    next
      assume "\<exists>n q. childWalked tbl node n \<and> bindDecl n = Some (f, q)"
      with False show ?thesis by (blast intro: childWalked_walked)
    qed
  qed
next
  case (2 tbl path binds)
  then show ?case by simp
next
  case (3 tbl key v rest path binds)
  show ?case
  proof (cases "strings_HasPrefix key ''@''")
    case True
    with 3 show ?thesis by (auto intro: childWalked_Cons)
  next
    case False
    show ?thesis
    proof (cases v)
      case (Map child)
      with False "3.prems"
      have "f \<in> fst ` set (collectBinds_range tbl rest path (collectBinds tbl child (joinPath path key) binds))"
        by simp
      from "3.IH"(11)[OF False Map this]
      show ?thesis
      proof
        assume "f \<in> fst ` set (collectBinds tbl child (joinPath path key) binds)"
        from "3.IH"(10)[OF False Map this] False Map show ?thesis
          by (fastforce simp: childWalked_def)
      next
        assume "\<exists>n q. childWalked tbl rest n \<and> bindDecl n = Some (f, q)"
        then show ?thesis by (auto intro: childWalked_Cons)
      qed
    next
      case (IMap childMap)
      with False "3.prems"
      have "f \<in> fst ` set (collectBinds_range tbl rest path
              (collectBinds tbl (normalizeInterfaceMap childMap) (joinPath path key) binds))"
        by simp
      from "3.IH"(13)[OF False IMap this]
      show ?thesis
      proof
        assume "f \<in> fst ` set (collectBinds tbl (normalizeInterfaceMap childMap) (joinPath path key) binds)"
        from "3.IH"(12)[OF False IMap this] False IMap show ?thesis
          by (fastforce simp: childWalked_def)
      next
        assume "\<exists>n q. childWalked tbl rest n \<and> bindDecl n = Some (f, q)"
        then show ?thesis by (auto intro: childWalked_Cons)
      qed
    qed (use False "3.prems" "3.IH" in \<open>auto intro: childWalked_Cons\<close>)
  qed
qed

lemma walked_outsideBoundary: "walked tbl m n \<Longrightarrow> outsideBoundary tbl (Map m) (Map n)"
proof (induction rule: walked.induct)
  case (start m)
  show ?case by (rule outsideBoundary.here)
next
  case (child m k c n)
  then show ?case by (auto intro: outsideBoundary.in_map)
next
  case (ichild m k c n)
  then show ?case by (auto intro: outsideBoundary.in_map outsideBoundary.in_imap)
qed

text \<open>
  Claim C4. For every template: a field that no node outside the boundaries declares,
  that is, a field declared only strictly inside boundary subtrees, is absent from the
  bind index; and the \<open>@bind\<close> of a boundary node that the walk reaches is in it.
\<close>

theorem collectBinds_stops_at_boundary:
  "((\<forall>n q. outsideBoundary tbl (Map template) (Map n) \<longrightarrow> bindDecl n \<noteq> Some (f, q))
      \<longrightarrow> f \<notin> fst ` set (collectBinds tbl template path []))
   \<and> (walked tbl template b \<and> isBoundaryPlugin tbl b \<and> bindDecl b = Some (g, p)
      \<longrightarrow> g \<in> fst ` set (collectBinds tbl template path []))"
proof (intro conjI impI)
  assume none: "\<forall>n q. outsideBoundary tbl (Map template) (Map n) \<longrightarrow> bindDecl n \<noteq> Some (f, q)"
  show "f \<notin> fst ` set (collectBinds tbl template path [])"
  proof
    assume "f \<in> fst ` set (collectBinds tbl template path [])"
    from collectBinds_sound(1)[OF this]
    obtain n q where "walked tbl template n" "bindDecl n = Some (f, q)" by auto
    with none walked_outsideBoundary show False by blast
  qed
next
  assume "walked tbl template b \<and> isBoundaryPlugin tbl b \<and> bindDecl b = Some (g, p)"
  then show "g \<in> fst ` set (collectBinds tbl template path [])"
    by (auto intro: collectBinds_complete)
qed

inductive_simps outsideBoundary_Map: "outsideBoundary tbl (Map m) n"

theorem collectBinds_stops_at_boundary_witness:
  "walked latin1Lower outerTemplate boundaryNode \<and> isBoundaryPlugin latin1Lower boundaryNode
   \<and> bindDecl boundaryNode = Some (''teaser'', ''data.id'')
   \<and> ''teaser'' \<in> fst ` set (collectBinds latin1Lower outerTemplate [] [])
   \<and> bindDecl [(''@bind'', innerBind)] = Some (''subtitle'', ''value'')
   \<and> ''subtitle'' \<notin> fst ` set (collectBinds latin1Lower outerTemplate [] [])"
proof -
  have b: "isBoundaryPlugin latin1Lower boundaryNode" by code_simp
  have nb: "\<not> isBoundaryPlugin latin1Lower outerTemplate" by code_simp
  have pre: "\<not> strings_HasPrefix ''20'' ''@''" by code_simp
  have decl: "bindDecl boundaryNode = Some (''teaser'', ''data.id'')" by code_simp
  have inner: "bindDecl [(''@bind'', innerBind)] = Some (''subtitle'', ''value'')" by code_simp
  have top: "bindDecl outerTemplate = None" by code_simp
  have w: "walked latin1Lower outerTemplate boundaryNode"
    by (rule walked.child[OF nb _ pre walked.start]) (simp add: outerTemplate_def)
  have only: "\<forall>n q. outsideBoundary latin1Lower (Map outerTemplate) (Map n) \<longrightarrow> bindDecl n \<noteq> Some (''subtitle'', q)"
  proof (intro allI impI)
    fix n q
    assume "outsideBoundary latin1Lower (Map outerTemplate) (Map n)"
    then have "n = outerTemplate \<or> n = boundaryNode"
      using b nb
      by (auto simp: outsideBoundary_Map outerTemplate_def)
    with decl top show "bindDecl n \<noteq> Some (''subtitle'', q)" by auto
  qed
  show ?thesis
    using b decl inner w only
      collectBinds_stops_at_boundary[of latin1Lower outerTemplate "''subtitle''" "[]" boundaryNode
        "''teaser''" "''data.id''"]
    by blast
qed

lemma map_of_emptySeqs:
  "map_of (map (\<lambda>kv. (fst kv, emptySeqs (snd kv))) m) k = map_option emptySeqs (map_of m k)"
  by (induction m) auto

lemma mapIndex_emptySeqs: "mapIndex (emptySeqs_map m) k = emptySeqs (mapIndex m k)"
  by (simp add: mapIndex_def emptySeqs_map_def map_of_emptySeqs split: option.splits)

lemma stringOf_emptySeqs: "stringOf (emptySeqs v) = stringOf v"
  by (cases v) (simp_all add: stringOf_def)

lemma parseBoolish_emptySeqs: "parseBoolish tbl (emptySeqs v) = parseBoolish tbl v"
  by (cases v) simp_all

lemma update_emptySeqs:
  "AList.update k (emptySeqs v) (map (\<lambda>kv. (fst kv, emptySeqs (snd kv))) acc)
     = map (\<lambda>kv. (fst kv, emptySeqs (snd kv))) (AList.update k v acc)"
  by (induction acc) auto

lemma normalize_emptySeqs:
  "normalizeInterfaceMap_loop (map (\<lambda>kv. (fst kv, emptySeqs (snd kv))) im)
       (map (\<lambda>kv. (fst kv, emptySeqs (snd kv))) acc)
     = map (\<lambda>kv. (fst kv, emptySeqs (snd kv))) (normalizeInterfaceMap_loop im acc)"
  "length (normalizeSlice xs) = length xs"
proof (induction im acc and xs rule: normalizeInterfaceMap_loop_normalizeSlice.induct)
  case (2 k v rest result)
  let ?norm = "\<lambda>v. (case v of
           Map child \<Rightarrow> Map child
         | IMap child \<Rightarrow> Map (normalizeInterfaceMap_loop child [])
         | Seq child \<Rightarrow> Seq (normalizeSlice child)
         | _ \<Rightarrow> v)"
  have v: "?norm (emptySeqs v) = emptySeqs (?norm v)"
  proof (cases v)
    case (IMap child)
    from "2.IH"(2)[OF IMap] IMap show ?thesis by simp
  qed simp_all
  show ?case
    using "2.IH"(3) by (simp add: v update_emptySeqs del: emptySeqs.simps)
qed simp_all

lemma normalizeInterfaceMap_emptySeqs:
  "normalizeInterfaceMap (map (\<lambda>kv. (fst kv, emptySeqs (snd kv))) im)
     = emptySeqs_map (normalizeInterfaceMap im)"
  using normalize_emptySeqs(1)[of im "[]"]
  by (simp add: normalizeInterfaceMap_def emptySeqs_map_def)

lemma isBoundaryPlugin_emptySeqs: "isBoundaryPlugin tbl (emptySeqs_map m) = isBoundaryPlugin tbl m"
proof -
  have data: "map_of (emptySeqs_map m) ''data'' = map_option emptySeqs (map_of m ''data'')"
    by (simp add: emptySeqs_map_def map_of_emptySeqs)
  show ?thesis
    unfolding isBoundaryPlugin_def Let_def mapIndex_emptySeqs stringOf_emptySeqs data
    by (cases "map_of m ''data''"; cases "the (map_of m ''data'')")
       (simp_all add: normalizeInterfaceMap_emptySeqs mapIndex_emptySeqs parseBoolish_emptySeqs
          emptySeqs_map_def[symmetric])
qed

lemma bindDecl_emptySeqs: "bindDecl (emptySeqs_map m) = bindDecl m"
proof -
  have bind: "map_of (emptySeqs_map m) ''@bind'' = map_option emptySeqs (map_of m ''@bind'')"
    by (simp add: emptySeqs_map_def map_of_emptySeqs)
  show ?thesis
    unfolding bindDecl_def bind
    by (cases "map_of m ''@bind''"; cases "the (map_of m ''@bind'')")
       (simp_all add: mapIndex_emptySeqs stringOf_emptySeqs emptySeqs_map_def[symmetric])
qed

lemma collectBinds_emptySeqs:
  "collectBinds tbl (emptySeqs_map node) path binds = collectBinds tbl node path binds"
  "collectBinds_range tbl (emptySeqs_map kvs) path binds = collectBinds_range tbl kvs path binds"
proof (induction tbl node path binds and tbl kvs path binds
    rule: collectBinds_collectBinds_range.induct)
  case (1 tbl node path binds)
  show ?case
  proof (cases "isBoundaryPlugin tbl node")
    case True
    then show ?thesis
      by (simp add: collectBinds.simps[of tbl "emptySeqs_map node"] collectBinds.simps[of tbl node]
            isBoundaryPlugin_emptySeqs bindDecl_emptySeqs)
  next
    case False
    with "1.IH"[OF refl False] show ?thesis
      by (simp add: collectBinds.simps[of tbl "emptySeqs_map node"] collectBinds.simps[of tbl node]
            isBoundaryPlugin_emptySeqs bindDecl_emptySeqs Let_def)
  qed
next
  case (2 tbl path binds)
  show ?case by (simp add: emptySeqs_map_def)
next
  case (3 tbl key v rest path binds)
  have cons: "emptySeqs_map ((key, w) # rest) = (key, emptySeqs w) # emptySeqs_map rest" for w
    by (simp add: emptySeqs_map_def)
  show ?case
  proof (cases "strings_HasPrefix key ''@''")
    case True
    with 3 show ?thesis by (simp add: cons)
  next
    case False
    show ?thesis
    proof (cases v)
      case (Map child)
      with False "3.IH"(10)[OF False Map] "3.IH"(11)[OF False Map] show ?thesis
        by (simp add: cons emptySeqs_map_def[symmetric])
    next
      case (IMap childMap)
      with False "3.IH"(12)[OF False IMap] "3.IH"(13)[OF False IMap] show ?thesis
        by (simp add: cons normalizeInterfaceMap_emptySeqs)
    qed (use False "3.IH" in \<open>simp_all add: cons\<close>)
  qed
qed

text \<open>
  Claim C9. \<open>collectBinds\<close> never looks into a sequence: the bind index of a template
  is the bind index of the template with every sequence emptied, at any depth. So a
  \<open>@bind\<close> on or below a sequence adds nothing to the index, although \<open>getAtPath\<close>
  follows an index into a list.
\<close>

theorem collectBinds_ignores_sequences:
  "collectBinds tbl (emptySeqs_map template) path binds = collectBinds tbl template path binds"
  by (rule collectBinds_emptySeqs(1))

theorem collectBinds_ignores_sequences_witness:
  "emptySeqs_map listTemplate =
     [(''10'', Map [(''value'', Str ''Hello''),
                    (''@bind'', Map [(''field'', Str ''title''), (''path'', Str ''value'')])]),
      (''20'', Seq [])]
   \<and> collectBinds latin1Lower listTemplate [] [] = [(''title'', ''10.value'')]
   \<and> getAtPath listTemplate ''20.0.value'' = Some (Str ''Item'')"
proof -
  have e: "emptySeqs_map listTemplate =
     [(''10'', Map [(''value'', Str ''Hello''),
                    (''@bind'', Map [(''field'', Str ''title''), (''path'', Str ''value'')])]),
      (''20'', Seq [])]"
    by code_simp
  have c: "collectBinds latin1Lower (emptySeqs_map listTemplate) [] [] = [(''title'', ''10.value'')]"
    by code_simp
  have g: "getAtPath listTemplate ''20.0.value'' = Some (Str ''Item'')" by code_simp
  show ?thesis
    using e c g collectBinds_ignores_sequences[of latin1Lower listTemplate "[]" "[]"] by simp
qed

end
